theory Spec2Isabelle
  imports Complex_Main "HOL-Library.Log_Nat"
begin

section \<open>Machine integers\<close>

text \<open>
  The source computes with \<^verbatim>\<open>int64_t\<close> (dimension values, attribute values, tensor
  data) and with \<^verbatim>\<open>int\<close> (ranks, loop counters, some narrowed values). Both are
  modelled by \<^typ>\<open>int\<close> with the two's-complement wrap-around written out:
  \<open>int64\<close> is the value an \<^verbatim>\<open>int64_t\<close> holds after an arithmetic result, and
  \<open>int32\<close> is \<^verbatim>\<open>static_cast<int>\<close> of a 64-bit value.
\<close>

definition int64 :: "int \<Rightarrow> int" where
  "int64 x = (x + 2 ^ 63) mod 2 ^ 64 - 2 ^ 63"

definition int32 :: "int \<Rightarrow> int" where
  "int32 x = (x + 2 ^ 31) mod 2 ^ 32 - 2 ^ 31"

definition in_int64 :: "int \<Rightarrow> bool" where
  "in_int64 x = (- (2 ^ 63) \<le> x \<and> x < 2 ^ 63)"

definition in_int32 :: "int \<Rightarrow> bool" where
  "in_int32 x = (- (2 ^ 31) \<le> x \<and> x < 2 ^ 31)"

section \<open>Data model\<close>

text \<open>
  \<^verbatim>\<open>TensorProto::DataType\<close>: the element kinds the type constraints of
  \<^verbatim>\<open>defs.cc\<close> name.
\<close>

datatype ElementType =
  FLOAT | UINT8 | INT8 | UINT16 | INT16 | INT32 | INT64 | STRING | BOOL
  | FLOAT16 | DOUBLE | UINT32 | UINT64

text \<open>
  \<^verbatim>\<open>TensorShapeProto::Dimension\<close>: a oneof of \<^verbatim>\<open>dim_value\<close> and
  \<^verbatim>\<open>dim_param\<close>, or neither. A dimension just made by \<^verbatim>\<open>add_dim()\<close> is
  \<open>DimUnset\<close>.
\<close>

datatype Dimension = DimValue int | DimParam string | DimUnset

fun has_dim_value :: "Dimension \<Rightarrow> bool" where
  "has_dim_value (DimValue v) = True"
| "has_dim_value d = False"

fun has_dim_param :: "Dimension \<Rightarrow> bool" where
  "has_dim_param (DimParam p) = True"
| "has_dim_param d = False"

text \<open>Reading \<^verbatim>\<open>dim_value()\<close> of a dimension without one gives the default 0.\<close>

fun dim_value :: "Dimension \<Rightarrow> int" where
  "dim_value (DimValue v) = v"
| "dim_value d = 0"

text \<open>
  The type of one input or output slot: an element type and a shape, each known or not.
  \<open>shape = None\<close> is \<^verbatim>\<open>!has_shape()\<close>; \<open>shape = Some []\<close> is a shape of rank 0.
\<close>

record TensorTypeInfo =
  elem_type :: "ElementType option"
  shape :: "Dimension list option"

text \<open>
  \<^verbatim>\<open>tensor_type().shape()\<close> read without a \<^verbatim>\<open>has_shape()\<close> test: a missing
  shape reads as the default instance, which has no dimensions.
\<close>

definition shape_dims :: "TensorTypeInfo \<Rightarrow> Dimension list" where
  "shape_dims t = (case shape t of None \<Rightarrow> [] | Some ds \<Rightarrow> ds)"

datatype AttributeValue = AttrInt int | AttrInts "int list" | AttrString string

text \<open>
  A constant tensor (an initializer), as far as the inference functions read it: its
  \<^verbatim>\<open>data_type\<close> if set, and its data either as \<^verbatim>\<open>raw_data\<close> bytes or in the
  typed fields.
\<close>

record TensorProto =
  data_type :: "ElementType option"
  raw_data :: "string option"
  int64_data :: "int list"
  int32_data :: "int list"

text \<open>
  The inference context of one node: the types of its input slots, the constant data of
  each input where it is an initializer, its attributes, and its output slots, which the
  inference function mutates. The list accessors below are used at the indices the schema
  of the operator declares; the engine checks a node's arity against the schema before it
  calls the inference function, and every theorem states the arity it needs.
\<close>

record InferenceContext =
  inputTypes :: "TensorTypeInfo list"
  inputData :: "TensorProto option list"
  attributes :: "(string \<times> AttributeValue) list"
  outputTypes :: "TensorTypeInfo list"

text \<open>
  The ways a call can end without returning. \<^verbatim>\<open>fail_shape_inference\<close> and
  \<^verbatim>\<open>fail_type_inference\<close> throw an \<^verbatim>\<open>InferenceError\<close> whose message starts with
  the kind of the error. \<open>ArithmeticTrap\<close> is not an exception of the source: it stands
  for a machine division that has no result and stops the process.
\<close>

datatype InferenceError =
  ShapeInferenceError string | TypeInferenceError string | ArithmeticTrap

definition getNumInputs :: "InferenceContext \<Rightarrow> nat" where
  "getNumInputs ctx = length (inputTypes ctx)"

definition getNumOutputs :: "InferenceContext \<Rightarrow> nat" where
  "getNumOutputs ctx = length (outputTypes ctx)"

definition getInputType :: "InferenceContext \<Rightarrow> nat \<Rightarrow> TensorTypeInfo" where
  "getInputType ctx i = inputTypes ctx ! i"

definition getOutputType :: "InferenceContext \<Rightarrow> nat \<Rightarrow> TensorTypeInfo" where
  "getOutputType ctx i = outputTypes ctx ! i"

definition getInputData :: "InferenceContext \<Rightarrow> nat \<Rightarrow> TensorProto option" where
  "getInputData ctx i = (if i < length (inputData ctx) then inputData ctx ! i else None)"

definition getAttribute :: "InferenceContext \<Rightarrow> string \<Rightarrow> AttributeValue option" where
  "getAttribute ctx name = map_of (attributes ctx) name"

text \<open>\<^verbatim>\<open>AttributeProto::i()\<close> and \<^verbatim>\<open>ints()\<close>: a field that is not set reads as its default.\<close>

fun attr_i :: "AttributeValue \<Rightarrow> int" where
  "attr_i (AttrInt v) = v"
| "attr_i a = 0"

fun attr_ints :: "AttributeValue \<Rightarrow> int list" where
  "attr_ints (AttrInts vs) = vs"
| "attr_ints a = []"

subsection \<open>Mutating an output slot\<close>

definition updOutput ::
  "nat \<Rightarrow> (TensorTypeInfo \<Rightarrow> TensorTypeInfo) \<Rightarrow> InferenceContext \<Rightarrow> InferenceContext" where
  "updOutput i f ctx = ctx\<lparr>outputTypes := (outputTypes ctx)[i := f (outputTypes ctx ! i)]\<rparr>"

text \<open>\<^verbatim>\<open>mutable_shape()\<close>: creates an empty shape if the slot has none.\<close>

definition mutable_shape :: "TensorTypeInfo \<Rightarrow> TensorTypeInfo" where
  "mutable_shape t = t\<lparr>shape := Some (shape_dims t)\<rparr>"

text \<open>
  \<^verbatim>\<open>mutable_shape()->add_dim()\<close> followed by the assignments to the new dimension:
  the dimension is appended with the value it ends up with.
\<close>

definition add_dim :: "Dimension \<Rightarrow> TensorTypeInfo \<Rightarrow> TensorTypeInfo" where
  "add_dim d t = t\<lparr>shape := Some (shape_dims t @ [d])\<rparr>"

text \<open>\<^verbatim>\<open>mutable_shape()->mutable_dim(k)\<close> assigned \<open>d\<close>.\<close>

definition set_dim :: "nat \<Rightarrow> Dimension \<Rightarrow> TensorTypeInfo \<Rightarrow> TensorTypeInfo" where
  "set_dim k d t = t\<lparr>shape := Some ((shape_dims t)[k := d])\<rparr>"

subsection \<open>Helpers of the inference functions\<close>

text \<open>
  Modelled from the spec: \<^verbatim>\<open>propagateElemTypeFromInputToOutput\<close>,
  \<^verbatim>\<open>updateOutputElemType\<close>, \<^verbatim>\<open>hasInputShape\<close>, \<^verbatim>\<open>hasNInputShapes\<close>,
  \<^verbatim>\<open>propagateShapeFromInputToOutput\<close>, \<^verbatim>\<open>getRepeatedAttribute\<close> and the
  two-argument \<^verbatim>\<open>getAttribute\<close> are declared in a header that is not among the
  sources. The spec gives a slot an element type and a shape, each optional until
  inferred; element-type propagation copies the element type of an input slot to an
  output slot; a shape is propagated only from an input whose shape is known; an
  attribute lookup gives the value or "absent", with the declared default for an optional
  attribute.
\<close>

definition propagateElemTypeFromInputToOutput ::
  "InferenceContext \<Rightarrow> nat \<Rightarrow> nat \<Rightarrow> InferenceContext" where
  "propagateElemTypeFromInputToOutput ctx i k =
     updOutput k (\<lambda>t. t\<lparr>elem_type := elem_type (getInputType ctx i)\<rparr>) ctx"

definition updateOutputElemType ::
  "InferenceContext \<Rightarrow> nat \<Rightarrow> ElementType \<Rightarrow> InferenceContext" where
  "updateOutputElemType ctx k e = updOutput k (\<lambda>t. t\<lparr>elem_type := Some e\<rparr>) ctx"

definition hasInputShape :: "InferenceContext \<Rightarrow> nat \<Rightarrow> bool" where
  "hasInputShape ctx n = (n < getNumInputs ctx \<and> shape (getInputType ctx n) \<noteq> None)"

definition hasNInputShapes :: "InferenceContext \<Rightarrow> nat \<Rightarrow> bool" where
  "hasNInputShapes ctx n = list_all (hasInputShape ctx) [0..<n]"

definition propagateShapeFromInputToOutput ::
  "InferenceContext \<Rightarrow> nat \<Rightarrow> nat \<Rightarrow> InferenceContext" where
  "propagateShapeFromInputToOutput ctx i k =
     updOutput k (\<lambda>t. t\<lparr>shape := Some (shape_dims (getInputType ctx i))\<rparr>) ctx"

definition getRepeatedAttribute :: "InferenceContext \<Rightarrow> string \<Rightarrow> int list option" where
  "getRepeatedAttribute ctx name = map_option attr_ints (getAttribute ctx name)"

definition getAttributeOr :: "InferenceContext \<Rightarrow> string \<Rightarrow> int \<Rightarrow> int" where
  "getAttributeOr ctx name dflt =
     (case getAttribute ctx name of None \<Rightarrow> dflt | Some a \<Rightarrow> attr_i a)"

section \<open>Pad (version 2)\<close>

text \<open>
  The body of the loop over the axes: the new output dimension of axis \<open>i\<close>. The sums are
  \<^verbatim>\<open>int64_t\<close> sums.
\<close>

definition Pad_newdim :: "Dimension list \<Rightarrow> int list \<Rightarrow> nat \<Rightarrow> Dimension" where
  "Pad_newdim input_shape pads i =
     (if has_dim_value (input_shape ! i)
      then DimValue (int64 (int64 (dim_value (input_shape ! i) + pads ! i)
                            + pads ! (length input_shape + i)))
      else if int64 (pads ! i + pads ! (length input_shape + i)) = 0
      then input_shape ! i
      else DimUnset)"

fun Pad_loop ::
  "Dimension list \<Rightarrow> int list \<Rightarrow> nat list \<Rightarrow> InferenceContext \<Rightarrow> InferenceContext" where
  "Pad_loop input_shape pads [] ctx = ctx"
| "Pad_loop input_shape pads (i # rest) ctx =
     Pad_loop input_shape pads rest (updOutput 0 (add_dim (Pad_newdim input_shape pads i)) ctx)"

definition Pad_infer :: "InferenceContext \<Rightarrow> InferenceError + InferenceContext" where
  "Pad_infer ctx0 =
     (let ctx = propagateElemTypeFromInputToOutput ctx0 0 0 in
      if \<not> hasNInputShapes ctx 1 then Inr ctx
      else
        let input_shape = shape_dims (getInputType ctx 0) in
        case getRepeatedAttribute ctx ''pads'' of
          None \<Rightarrow> Inl (ShapeInferenceError ''Attribute value for pads is required'')
        | Some pads \<Rightarrow>
            if length pads \<noteq> length input_shape * 2
            then Inl (ShapeInferenceError ''Attribute pads has incorrect length'')
            else Inr (Pad_loop input_shape pads [0..<length input_shape]
                        (updOutput 0 mutable_shape ctx)))"

section \<open>Scatter (version 9)\<close>

definition Scatter_infer :: "InferenceContext \<Rightarrow> InferenceError + InferenceContext" where
  "Scatter_infer ctx0 =
     (let ctx = propagateElemTypeFromInputToOutput ctx0 0 0 in
      if hasNInputShapes ctx 1 then Inr (propagateShapeFromInputToOutput ctx 0 0)
      else Inr ctx)"

section \<open>Gather (version 1)\<close>

text \<open>
  The dimension appended at output position \<open>i\<close>. \<open>r\<close>, \<open>q\<close> and \<open>axis\<close> are
  \<^verbatim>\<open>int\<close>s in the source; ranks are lengths of lists that exist, so their sums are
  not wrapped.
\<close>

definition Gather_dim :: "Dimension list \<Rightarrow> Dimension list \<Rightarrow> int \<Rightarrow> int \<Rightarrow> nat \<Rightarrow> Dimension" where
  "Gather_dim data_shape indices_shape axis q i =
     (if int i < axis then data_shape ! i
      else if int i \<ge> axis \<and> int i < axis + q then indices_shape ! nat (int i - axis)
      else data_shape ! nat (int i - q + 1))"

fun Gather_loop ::
  "Dimension list \<Rightarrow> Dimension list \<Rightarrow> int \<Rightarrow> int \<Rightarrow> nat list \<Rightarrow> InferenceContext
     \<Rightarrow> InferenceContext" where
  "Gather_loop data_shape indices_shape axis q [] ctx = ctx"
| "Gather_loop data_shape indices_shape axis q (i # rest) ctx =
     Gather_loop data_shape indices_shape axis q rest
       (updOutput 0 (add_dim (Gather_dim data_shape indices_shape axis q i)) ctx)"

definition Gather_infer :: "InferenceContext \<Rightarrow> InferenceError + InferenceContext" where
  "Gather_infer ctx0 =
     (let ctx = propagateElemTypeFromInputToOutput ctx0 0 0 in
      if \<not> hasNInputShapes ctx 2 then Inr ctx
      else
        let data_shape = shape_dims (getInputType ctx 0);
            indices_shape = shape_dims (getInputType ctx 1);
            r = int (length data_shape)
        in
        if r < 1 then Inl (ShapeInferenceError ''data tensor must have rank >= 1'')
        else
          let q = int (length indices_shape);
              axis = int32 (getAttributeOr ctx ''axis'' 0)
          in
          if axis < - r \<or> axis \<ge> r then Inl (ShapeInferenceError ''axis must be in [-r, r-1]'')
          else
            let axis1 = (if axis < 0 then axis + r else axis);
                out_rank = q + r - 1;
                ctx1 = (if out_rank = 0 then updOutput 0 mutable_shape ctx else ctx)
            in Inr (Gather_loop data_shape indices_shape axis1 q [0..<nat out_rank] ctx1))"

section \<open>Squeeze (version 1)\<close>

text \<open>
  The loop \<^verbatim>\<open>for (int i = 0, j = 0; i < input_shape.dim_size(); ++i)\<close>: \<open>j\<close> walks
  through \<open>axes\<close> in the order the attribute lists them.
\<close>

fun Squeeze_loop ::
  "Dimension list \<Rightarrow> int list \<Rightarrow> nat list \<Rightarrow> nat \<Rightarrow> InferenceContext
     \<Rightarrow> InferenceError + InferenceContext" where
  "Squeeze_loop input_shape axes [] j ctx = Inr ctx"
| "Squeeze_loop input_shape axes (i # rest) j ctx =
     (if j < length axes \<and> axes ! j = int i
      then
        if has_dim_value (input_shape ! i) \<and> dim_value (input_shape ! i) \<noteq> 1
        then Inl (ShapeInferenceError ''Dimension of input must be 1'')
        else Squeeze_loop input_shape axes rest (j + 1) ctx
      else Squeeze_loop input_shape axes rest j (updOutput 0 (add_dim (input_shape ! i)) ctx))"

definition Squeeze_infer :: "InferenceContext \<Rightarrow> InferenceError + InferenceContext" where
  "Squeeze_infer ctx0 =
     (let ctx = propagateElemTypeFromInputToOutput ctx0 0 0 in
      if \<not> hasNInputShapes ctx 1 then Inr ctx
      else
        case getRepeatedAttribute ctx ''axes'' of
          None \<Rightarrow> Inr ctx
        | Some axes \<Rightarrow>
            if shape (getInputType ctx 0) = None then Inr ctx
            else
              let input_shape = shape_dims (getInputType ctx 0) in
              Squeeze_loop input_shape axes [0..<length input_shape] 0
                (updOutput 0 mutable_shape ctx))"

section \<open>Tile (version 6)\<close>

text \<open>
  Modelled from the spec: \<^verbatim>\<open>ParseData\<close>, which reads the values of a constant tensor,
  is declared in \<^verbatim>\<open>onnx/defs/tensor/utils.h\<close>, which is not among the sources. The
  spec speaks of the constant tensor value of an input; the model takes it from the
  \<^verbatim>\<open>raw_data\<close> bytes (little-endian, as the Reshape function of the source reads
  them itself) when they are present, and from the typed field otherwise.
\<close>

definition le_bytes :: "string \<Rightarrow> int" where
  "le_bytes bs = foldr (\<lambda>b acc. int (of_char b) + 256 * acc) bs 0"

fun int64s_of_bytes :: "string \<Rightarrow> int list" where
  "int64s_of_bytes (b0 # b1 # b2 # b3 # b4 # b5 # b6 # b7 # rest) =
     int64 (le_bytes [b0, b1, b2, b3, b4, b5, b6, b7]) # int64s_of_bytes rest"
| "int64s_of_bytes bs = []"

fun int32s_of_bytes :: "string \<Rightarrow> int list" where
  "int32s_of_bytes (b0 # b1 # b2 # b3 # rest) =
     int32 (le_bytes [b0, b1, b2, b3]) # int32s_of_bytes rest"
| "int32s_of_bytes bs = []"

definition ParseData_int64 :: "TensorProto \<Rightarrow> int list" where
  "ParseData_int64 t =
     (case raw_data t of Some bytes \<Rightarrow> int64s_of_bytes bytes | None \<Rightarrow> int64_data t)"

definition ParseData_int32 :: "TensorProto \<Rightarrow> int list" where
  "ParseData_int32 t =
     (case raw_data t of Some bytes \<Rightarrow> int32s_of_bytes bytes | None \<Rightarrow> int32_data t)"

definition Tile_dim :: "Dimension list \<Rightarrow> int list \<Rightarrow> nat \<Rightarrow> Dimension" where
  "Tile_dim input_shape repeats_data i =
     (if has_dim_value (input_shape ! i)
      then DimValue (int64 (dim_value (input_shape ! i) * repeats_data ! i))
      else DimUnset)"

fun Tile_loop ::
  "Dimension list \<Rightarrow> int list \<Rightarrow> nat list \<Rightarrow> InferenceContext \<Rightarrow> InferenceContext" where
  "Tile_loop input_shape repeats_data [] ctx = ctx"
| "Tile_loop input_shape repeats_data (i # rest) ctx =
     Tile_loop input_shape repeats_data rest
       (updOutput 0 (add_dim (Tile_dim input_shape repeats_data i)) ctx)"

fun Tile_rank_loop :: "nat list \<Rightarrow> InferenceContext \<Rightarrow> InferenceContext" where
  "Tile_rank_loop [] ctx = ctx"
| "Tile_rank_loop (i # rest) ctx = Tile_rank_loop rest (updOutput 0 (add_dim DimUnset) ctx)"

definition Tile_infer :: "InferenceContext \<Rightarrow> InferenceError + InferenceContext" where
  "Tile_infer ctx0 =
     (let ctx = propagateElemTypeFromInputToOutput ctx0 0 0 in
      if \<not> hasNInputShapes ctx 1 then Inr ctx
      else
        let input_shape = shape_dims (getInputType ctx 0);
            input_rank = length input_shape;
            repeats_inputs = getInputData ctx 1;
            ctx1 = updOutput 0 mutable_shape ctx
        in
        case repeats_inputs of
          Some t \<Rightarrow>
            let repeats_shape = shape_dims (getInputType ctx1 1) in
            if length repeats_shape \<noteq> 1
            then Inl (ShapeInferenceError ''Repeats input must be 1D tensor of type int64'')
            else if data_type t \<noteq> Some INT64
            then Inl (ShapeInferenceError ''Repeats input must be 1D tensor of type int64'')
            else
              let repeats_data = ParseData_int64 t in
              if length repeats_data \<noteq> input_rank
              then Inl (ShapeInferenceError ''Repeats input has incorrect number of values.'')
              else Inr (Tile_loop input_shape repeats_data [0..<input_rank] ctx1)
        | None \<Rightarrow> Inr (Tile_rank_loop [0..<input_rank] ctx1))"

section \<open>Unique (version 11)\<close>

text \<open>
  One of the optional outputs \<open>indices\<close>, \<open>inverse_indices\<close>, \<open>counts\<close>:
  \<^verbatim>\<open>updateOutputElemType(ctx, k, TensorProto::INT64)\<close> and one dimension added to
  its shape.
\<close>

definition Unique_optional_output :: "nat \<Rightarrow> InferenceContext \<Rightarrow> InferenceContext" where
  "Unique_optional_output k ctx =
     updOutput k (add_dim DimUnset) (updateOutputElemType ctx k INT64)"

fun Unique_loop ::
  "Dimension list \<Rightarrow> int \<Rightarrow> nat list \<Rightarrow> InferenceContext \<Rightarrow> InferenceContext" where
  "Unique_loop input_shape axis [] ctx = ctx"
| "Unique_loop input_shape axis (i # rest) ctx =
     Unique_loop input_shape axis rest
       (updOutput 0 (add_dim (if int i \<noteq> axis then input_shape ! i else DimUnset)) ctx)"

definition Unique_infer :: "InferenceContext \<Rightarrow> InferenceError + InferenceContext" where
  "Unique_infer ctx0 =
     (let ctx = propagateElemTypeFromInputToOutput ctx0 0 0;
          num_outputs = getNumOutputs ctx;
          ctx1 = (if num_outputs \<ge> 2 then Unique_optional_output 1 ctx else ctx);
          ctx2 = (if num_outputs \<ge> 3 then Unique_optional_output 2 ctx1 else ctx1);
          ctx3 = (if num_outputs \<ge> 4 then Unique_optional_output 3 ctx2 else ctx2)
      in
      case getAttribute ctx3 ''axis'' of
        None \<Rightarrow> Inr (updOutput 0 (add_dim DimUnset) ctx3)
      | Some axisAttr \<Rightarrow>
          let axis = int32 (attr_i axisAttr);
              input_shape = shape_dims (getInputType ctx3 0)
          in Inr (Unique_loop input_shape axis [0..<length input_shape] ctx3))"

section \<open>Concat (version 4)\<close>

text \<open>
  Modelled from the spec: \<^verbatim>\<open>mergeInDimensionInfo\<close> is declared in a header that is
  not among the sources. The spec's dimension reconciliation: an unset slot takes the
  input dimension; equal values and equal parameter names are kept; a value wins over a
  parameter; unequal values fail; unequal parameter names widen to unknown without failing;
  known information is never replaced by less-known information.
\<close>

fun mergeInDimensionInfo :: "Dimension \<Rightarrow> Dimension \<Rightarrow> InferenceError + Dimension" where
  "mergeInDimensionInfo source_dim DimUnset = Inr source_dim"
| "mergeInDimensionInfo DimUnset target_dim = Inr target_dim"
| "mergeInDimensionInfo (DimValue a) (DimValue b) =
     (if a = b then Inr (DimValue b)
      else Inl (ShapeInferenceError ''Can't merge shape info''))"
| "mergeInDimensionInfo (DimValue a) (DimParam p) = Inr (DimValue a)"
| "mergeInDimensionInfo (DimParam p) (DimValue b) = Inr (DimValue b)"
| "mergeInDimensionInfo (DimParam p) (DimParam q) =
     (if p = q then Inr (DimParam q) else Inr DimUnset)"

text \<open>
  The state of the two nested loops: the context, \<^verbatim>\<open>int total_length\<close> and
  \<^verbatim>\<open>bool all_lengths_known\<close>. \<^verbatim>\<open>total_length\<close> is an \<^verbatim>\<open>int\<close>: the
  dimension value is narrowed by \<^verbatim>\<open>static_cast<int>\<close> before it is added.
\<close>

fun Concat_dims_loop ::
  "Dimension list \<Rightarrow> int \<Rightarrow> nat list \<Rightarrow> InferenceContext \<times> int \<times> bool
     \<Rightarrow> InferenceError + InferenceContext \<times> int \<times> bool" where
  "Concat_dims_loop shp axis [] st = Inr st"
| "Concat_dims_loop shp axis (j # rest) (ctx, total_length, all_lengths_known) =
     (if int j = axis
      then
        if has_dim_value (shp ! j)
        then Concat_dims_loop shp axis rest
               (ctx, int32 (total_length + int32 (dim_value (shp ! j))), all_lengths_known)
        else Concat_dims_loop shp axis rest (ctx, total_length, False)
      else
        case mergeInDimensionInfo (shp ! j) (shape_dims (getOutputType ctx 0) ! j) of
          Inl e \<Rightarrow> Inl e
        | Inr d \<Rightarrow>
            Concat_dims_loop shp axis rest
              (updOutput 0 (set_dim j d) ctx, total_length, all_lengths_known))"

fun Concat_inputs_loop ::
  "int \<Rightarrow> int \<Rightarrow> nat list \<Rightarrow> InferenceContext \<times> int \<times> bool
     \<Rightarrow> InferenceError + InferenceContext \<times> int \<times> bool" where
  "Concat_inputs_loop rank axis [] st = Inr st"
| "Concat_inputs_loop rank axis (i # rest) (ctx, total_length, all_lengths_known) =
     (let shp = shape_dims (getInputType ctx i) in
      if int (length shp) \<noteq> rank
      then Inl (ShapeInferenceError ''All inputs to Concat must have same rank'')
      else
        case Concat_dims_loop shp axis [0..<nat rank] (ctx, total_length, all_lengths_known) of
          Inl e \<Rightarrow> Inl e
        | Inr st \<Rightarrow> Concat_inputs_loop rank axis rest st)"

fun Concat_add_dims :: "nat list \<Rightarrow> InferenceContext \<Rightarrow> InferenceContext" where
  "Concat_add_dims [] ctx = ctx"
| "Concat_add_dims (i # rest) ctx = Concat_add_dims rest (updOutput 0 (add_dim DimUnset) ctx)"

definition Concat_infer :: "InferenceContext \<Rightarrow> InferenceError + InferenceContext" where
  "Concat_infer ctx0 =
     (let ctx = propagateElemTypeFromInputToOutput ctx0 0 0;
          numInputs = getNumInputs ctx
      in
      if numInputs < 1 \<or> \<not> hasNInputShapes ctx numInputs then Inr ctx
      else
        let rank = int (length (shape_dims (getInputType ctx 0))) in
        case getAttribute ctx ''axis'' of
          None \<Rightarrow> Inl (ShapeInferenceError ''Required attribute axis is missing'')
        | Some axisAttr \<Rightarrow>
            let axis = int32 (attr_i axisAttr) in
            if rank \<le> axis then Inl (ShapeInferenceError ''rank must be greater than axis'')
            else if axis < 0 then Inr ctx
            else
              let ctx1 = Concat_add_dims [0..<nat rank] (updOutput 0 mutable_shape ctx) in
              case Concat_inputs_loop rank axis [0..<numInputs] (ctx1, 0, True) of
                Inl e \<Rightarrow> Inl e
              | Inr (ctx2, total_length, all_lengths_known) \<Rightarrow>
                  if all_lengths_known
                  then Inr (updOutput 0 (set_dim (nat axis) (DimValue total_length)) ctx2)
                  else Inr ctx2)"

section \<open>Reshape (version 5)\<close>

text \<open>
  \<^verbatim>\<open>inputProduct % outputProduct\<close> and \<^verbatim>\<open>inputProduct / outputProduct\<close>:
  the division of C++ truncates towards zero. The source tests the divisor against 0
  before it divides. The one other pair of \<^verbatim>\<open>int64_t\<close> operands without a
  quotient is \<open>-2^63\<close> and \<open>-1\<close>, where the division traps: \<open>cpp_traps\<close>.
\<close>

definition cpp_div :: "int \<Rightarrow> int \<Rightarrow> int" where
  "cpp_div a b = sgn a * sgn b * (\<bar>a\<bar> div \<bar>b\<bar>)"

definition cpp_mod :: "int \<Rightarrow> int \<Rightarrow> int" where
  "cpp_mod a b = a - b * cpp_div a b"

definition cpp_traps :: "int \<Rightarrow> int \<Rightarrow> bool" where
  "cpp_traps a b = (b = 0 \<or> (a = - (2 ^ 63) \<and> b = - 1))"

text \<open>
  The first loop, over the entries of the target shape. Its state: the context,
  \<^verbatim>\<open>negativeOneDim\<close> (the position in the output shape of the dimension it points to,
  if it is set), \<^verbatim>\<open>unresolvedZeros\<close> and \<^verbatim>\<open>outputProduct\<close>. \<open>k\<close> is the position
  of \<^verbatim>\<open>new_dim\<close>.
\<close>

fun Reshape_loop ::
  "int list \<Rightarrow> TensorTypeInfo \<Rightarrow> nat list
     \<Rightarrow> InferenceContext \<times> nat option \<times> bool list \<times> int
     \<Rightarrow> InferenceError + InferenceContext \<times> nat option \<times> bool list \<times> int" where
  "Reshape_loop targetShape dataInputTensorType [] st = Inr st"
| "Reshape_loop targetShape dataInputTensorType (i # rest)
       (ctx, negativeOneDim, unresolvedZeros, outputProduct) =
     (let ctx1 = updOutput 0 (add_dim DimUnset) ctx;
          k = length (shape_dims (getOutputType ctx1 0)) - 1
      in
      if targetShape ! i = - 1
      then
        if negativeOneDim \<noteq> None
        then Inl (ShapeInferenceError ''Target shape may not have multiple -1 dimensions'')
        else Reshape_loop targetShape dataInputTensorType rest
               (ctx1, Some k, unresolvedZeros, outputProduct)
      else if targetShape ! i = 0
      then
        let unresolvedZeros1 = unresolvedZeros[i := True] in
        if shape dataInputTensorType \<noteq> None
        then
          if i \<ge> length (shape_dims dataInputTensorType)
          then Inl (ShapeInferenceError ''Invalid position of 0'')
          else
            let d = shape_dims dataInputTensorType ! i in
            if has_dim_value d
            then Reshape_loop targetShape dataInputTensorType rest
                   (updOutput 0 (set_dim k (DimValue (dim_value d))) ctx1, negativeOneDim,
                    unresolvedZeros1[i := False], int64 (outputProduct * dim_value d))
            else if has_dim_param d
            then Reshape_loop targetShape dataInputTensorType rest
                   (updOutput 0 (set_dim k d) ctx1, negativeOneDim, unresolvedZeros1,
                    outputProduct)
            else Reshape_loop targetShape dataInputTensorType rest
                   (ctx1, negativeOneDim, unresolvedZeros1, outputProduct)
        else Reshape_loop targetShape dataInputTensorType rest
               (ctx1, negativeOneDim, unresolvedZeros1, outputProduct)
      else if targetShape ! i > 0
      then Reshape_loop targetShape dataInputTensorType rest
             (updOutput 0 (set_dim k (DimValue (targetShape ! i))) ctx1, negativeOneDim,
              unresolvedZeros, int64 (outputProduct * targetShape ! i))
      else Inl (ShapeInferenceError ''Invalid dimension value''))"

text \<open>
  The second loop, over the dimensions of the data input, with its \<^verbatim>\<open>break\<close>: the
  result is \<^verbatim>\<open>inputProduct\<close> and \<^verbatim>\<open>inputProductValid\<close>.
\<close>

fun Reshape_input_product ::
  "Dimension list \<Rightarrow> bool list \<Rightarrow> nat list \<Rightarrow> int \<Rightarrow> int \<times> bool" where
  "Reshape_input_product ds unresolvedZeros [] inputProduct = (inputProduct, True)"
| "Reshape_input_product ds unresolvedZeros (i # rest) inputProduct =
     (if has_dim_value (ds ! i)
      then Reshape_input_product ds unresolvedZeros rest
             (int64 (inputProduct * dim_value (ds ! i)))
      else if i \<ge> length unresolvedZeros \<or> \<not> unresolvedZeros ! i
      then (inputProduct, False)
      else Reshape_input_product ds unresolvedZeros rest inputProduct)"

definition Reshape_infer :: "InferenceContext \<Rightarrow> InferenceError + InferenceContext" where
  "Reshape_infer ctx0 =
     (let ctx = propagateElemTypeFromInputToOutput ctx0 0 0 in
      case getInputData ctx 1 of
        None \<Rightarrow> Inr ctx
      | Some targetShapeInitializer \<Rightarrow>
          let targetShape =
                (case raw_data targetShapeInitializer of
                   Some bytes \<Rightarrow> int64s_of_bytes bytes
                 | None \<Rightarrow> int64_data targetShapeInitializer);
              ctx1 = updOutput 0 mutable_shape ctx;
              dataInputTensorType = getInputType ctx1 0
          in
          case Reshape_loop targetShape dataInputTensorType [0..<length targetShape]
                 (ctx1, None, replicate (length targetShape) False, 1) of
            Inl e \<Rightarrow> Inl e
          | Inr (ctx2, negativeOneDim, unresolvedZeros, outputProduct) \<Rightarrow>
              (case negativeOneDim of
                 None \<Rightarrow> Inr ctx2
               | Some k \<Rightarrow>
                   if outputProduct = 0
                   then Inl (ShapeInferenceError ''Invalid Target shape product of 0'')
                   else
                     let (inputProduct, inputProductValid) =
                           (if shape dataInputTensorType = None then (1, False)
                            else Reshape_input_product (shape_dims dataInputTensorType)
                                   unresolvedZeros
                                   [0..<length (shape_dims dataInputTensorType)] 1)
                     in
                     if inputProductValid
                     then
                       if cpp_traps inputProduct outputProduct then Inl ArithmeticTrap
                       else if cpp_mod inputProduct outputProduct \<noteq> 0
                       then Inl (ShapeInferenceError
                                   ''Dimension could not be inferred: incompatible shapes'')
                       else Inr (updOutput 0
                                   (set_dim k (DimValue (int64 (cpp_div inputProduct outputProduct))))
                                   ctx2)
                     else Inr ctx2))"

section \<open>Slice (version 10)\<close>

text \<open>The two lambdas of the inference function.\<close>

definition get_initializer_data :: "TensorProto \<Rightarrow> InferenceError + int list" where
  "get_initializer_data initializer =
     (if data_type initializer = Some INT64 then Inr (ParseData_int64 initializer)
      else if data_type initializer = Some INT32 then Inr (ParseData_int32 initializer)
      else Inl (ShapeInferenceError
                  ''Only supports int32_t or int64_t inputs for starts/ends/axes/steps''))"

definition clamp :: "int \<Rightarrow> int \<Rightarrow> int \<Rightarrow> int" where
  "clamp val low high = (if val < low then low else if val > high then high else val)"

text \<open>
  \<^verbatim>\<open>static_cast<int64_t>(ceil(1.0 * (end - start) / step))\<close>. The source converts
  \<^verbatim>\<open>end - start\<close> and \<^verbatim>\<open>step\<close> to \<^verbatim>\<open>double\<close>, divides, takes the ceiling
  and converts the result back. The model follows the IEEE 754 double arithmetic: a double
  is an integer mantissa of at most 53 bits times a power of two, and the conversion and
  the division round the exact result to the nearest double, ties to the even mantissa.

  \<open>round_half_even n d\<close> is \<open>n / d\<close> (for \<open>d > 0\<close>) rounded to the nearest integer,
  ties to even.
\<close>

definition round_half_even :: "int \<Rightarrow> int \<Rightarrow> int" where
  "round_half_even n d =
     (let q = n div d; r = n mod d in
      if 2 * r < d then q else if d < 2 * r then q + 1 else if even q then q else q + 1)"

text \<open>
  The conversion of an \<^verbatim>\<open>int64_t\<close> to \<^verbatim>\<open>double\<close>: exact up to \<open>2^53\<close> in
  absolute value, rounded to 53 significant bits above. The result is an integer.
\<close>

definition double_of_int64 :: "int \<Rightarrow> int" where
  "double_of_int64 x =
     (if \<bar>x\<bar> \<le> 2 ^ 53 then x
      else let u = 2 ^ nat (bitlen \<bar>x\<bar> - 53) in sgn x * (round_half_even \<bar>x\<bar> u * u))"

text \<open>
  The double nearest to the quotient \<open>a / b\<close> of two positive integers, as a mantissa
  \<open>m\<close> with \<open>2^52 \<le> m \<le> 2^53\<close> and an exponent \<open>e\<close>: its value is \<open>m * 2^e\<close>.
  \<open>e + 52\<close> is the exponent of the quotient, that is \<open>2^(e + 52) \<le> a / b < 2^(e + 53)\<close>.
  The operands are at most \<open>2^63\<close>, so the quotient is a normal double.
\<close>

definition double_quotient :: "int \<Rightarrow> int \<Rightarrow> int \<times> int" where
  "double_quotient a b =
     (let e0 = bitlen a - bitlen b;
          e = (if b * 2 ^ nat e0 \<le> a * 2 ^ nat (- e0) then e0 else e0 - 1);
          k = 52 - e
      in (round_half_even (a * 2 ^ nat k) (b * 2 ^ nat (- k)), e - 52))"

text \<open>\<^verbatim>\<open>ceil\<close> of the double \<open>n * 2^e\<close>, an integer.\<close>

definition double_ceil :: "int \<Rightarrow> int \<Rightarrow> int" where
  "double_ceil n e = (if 0 \<le> e then n * 2 ^ nat e else - ((- n) div 2 ^ nat (- e)))"

text \<open>
  The whole expression. The conversion back to \<^verbatim>\<open>int64_t\<close> is exact except for the
  one value out of range that can occur, \<open>2^63\<close>, where C++ leaves the result undefined
  and the conversion instruction of x86-64 gives \<open>-2^63\<close>, as \<open>int64\<close> does. The source
  has tested \<open>step\<close> against 0 before.
\<close>

definition ceil_quotient :: "int \<Rightarrow> int \<Rightarrow> int" where
  "ceil_quotient x step =
     (let a = double_of_int64 x; b = double_of_int64 step in
      if a = 0 then 0
      else
        let (m, e) = double_quotient \<bar>a\<bar> \<bar>b\<bar>
        in int64 (double_ceil (sgn a * sgn b * m) e))"

text \<open>The first loop: the output gets one dimension per input dimension.\<close>

definition Slice_copy_dim :: "Dimension \<Rightarrow> Dimension" where
  "Slice_copy_dim input_dim =
     (if has_dim_value input_dim then DimValue (dim_value input_dim)
      else if has_dim_param input_dim then input_dim
      else DimUnset)"

fun Slice_rank_loop :: "Dimension list \<Rightarrow> nat list \<Rightarrow> InferenceContext \<Rightarrow> InferenceContext" where
  "Slice_rank_loop input_shape [] ctx = ctx"
| "Slice_rank_loop input_shape (i # rest) ctx =
     Slice_rank_loop input_shape rest
       (updOutput 0 (add_dim (Slice_copy_dim (input_shape ! i))) ctx)"

text \<open>The output length of one sliced axis of known input length.\<close>

definition Slice_length :: "int \<Rightarrow> int \<Rightarrow> int \<Rightarrow> int \<Rightarrow> int" where
  "Slice_length input_dim_value start0 end0 step =
     (let start1 = (if start0 < 0 then int64 (start0 + input_dim_value) else start0);
          start = (if step < 0 then clamp start1 0 (int64 (input_dim_value - 1))
                   else clamp start1 0 input_dim_value);
          end1 = (if end0 < 0 then int64 (end0 + input_dim_value) else end0);
          end2 = (if step < 0 then clamp end1 (- 1) input_dim_value
                  else clamp end1 0 input_dim_value);
          temp = ceil_quotient (int64 (end2 - start)) step
      in if temp < 0 then 0 else temp)"

text \<open>
  The second loop, over \<open>axis_index\<close>. Its state: the context and
  \<^verbatim>\<open>unique_axes\<close>.
\<close>

fun Slice_axes_loop ::
  "Dimension list \<Rightarrow> int list \<Rightarrow> int list \<Rightarrow> int list \<Rightarrow> int list \<Rightarrow> nat list
     \<Rightarrow> InferenceContext \<times> int set \<Rightarrow> InferenceError + InferenceContext \<times> int set" where
  "Slice_axes_loop input_shape starts ends axes steps [] st = Inr st"
| "Slice_axes_loop input_shape starts ends axes steps (axis_index # rest) (ctx, unique_axes) =
     (let input_rank = int (length input_shape);
          axis = (if axes ! axis_index < 0 then int64 (axes ! axis_index + input_rank)
                  else axes ! axis_index)
      in
      if axis \<ge> input_rank \<or> axis < 0
      then Inl (ShapeInferenceError ''Input axes has invalid data'')
      else if axis \<in> unique_axes
      then Inl (ShapeInferenceError ''axes has duplicates'')
      else
        let input_dim = input_shape ! nat axis in
        if \<not> has_dim_value input_dim
        then Slice_axes_loop input_shape starts ends axes steps rest
               (ctx, insert axis unique_axes)
        else
          let step = steps ! axis_index in
          if step = 0 then Inl (ShapeInferenceError ''step cannot be 0'')
          else
            Slice_axes_loop input_shape starts ends axes steps rest
              (updOutput 0
                 (set_dim (nat axis)
                    (DimValue (Slice_length (dim_value input_dim) (starts ! axis_index)
                                 (ends ! axis_index) step)))
                 ctx,
               insert axis unique_axes))"

text \<open>
  \<open>axes\<close> and \<open>steps\<close>: read from the initializer when there is one, checked against
  the length \<open>n\<close> of the vector they must match, and defaulted otherwise.
\<close>

definition Slice_optional ::
  "TensorProto option \<Rightarrow> int list \<Rightarrow> nat \<Rightarrow> string \<Rightarrow> InferenceError + int list" where
  "Slice_optional initializer dflt n msg =
     (case initializer of
        None \<Rightarrow> Inr dflt
      | Some t \<Rightarrow>
          (case get_initializer_data t of
             Inl e \<Rightarrow> Inl e
           | Inr vs \<Rightarrow> if length vs \<noteq> n then Inl (ShapeInferenceError msg) else Inr vs))"

definition Slice_infer :: "InferenceContext \<Rightarrow> InferenceError + InferenceContext" where
  "Slice_infer ctx0 =
     (let num_inputs = getNumInputs ctx0 in
      if num_inputs \<noteq> 3 \<and> num_inputs \<noteq> 4 \<and> num_inputs \<noteq> 5
      then Inl (TypeInferenceError ''Slice op must have either three, four or five inputs.'')
      else
        let ctx = propagateElemTypeFromInputToOutput ctx0 0 0 in
        if \<not> hasNInputShapes ctx 1 then Inr ctx
        else
          let startsInitializer = getInputData ctx 1;
              endsInitializer = getInputData ctx 2;
              axesInitializer = (if hasInputShape ctx 3 then getInputData ctx 3 else None);
              stepsInitializer = (if hasInputShape ctx 4 then getInputData ctx 4 else None)
          in
          if startsInitializer = None \<or> endsInitializer = None
             \<or> (hasInputShape ctx 3 \<and> getInputData ctx 3 = None)
             \<or> (hasInputShape ctx 4 \<and> getInputData ctx 4 = None)
          then Inr ctx
          else if data_type (the startsInitializer) = None then Inr ctx
          else
            case get_initializer_data (the startsInitializer) of
              Inl e \<Rightarrow> Inl e
            | Inr starts \<Rightarrow>
            case get_initializer_data (the endsInitializer) of
              Inl e \<Rightarrow> Inl e
            | Inr ends \<Rightarrow>
            if length starts \<noteq> length ends
            then Inl (ShapeInferenceError
                        ''Incorrect or missing input value for starts and ends'')
            else
              let input_shape = shape_dims (getInputType ctx 0);
                  input_rank = length input_shape
              in
              case Slice_optional axesInitializer (map int [0..<length starts])
                     (length starts) ''Input axes has incorrect length'' of
                Inl e \<Rightarrow> Inl e
              | Inr axes \<Rightarrow>
              case Slice_optional stepsInitializer (replicate (length starts) 1)
                     (length axes) ''Input steps has incorrect length'' of
                Inl e \<Rightarrow> Inl e
              | Inr steps \<Rightarrow>
                let ctx1 = Slice_rank_loop input_shape [0..<input_rank] ctx in
                case Slice_axes_loop input_shape starts ends axes steps [0..<length axes]
                       (ctx1, {}) of
                  Inl e \<Rightarrow> Inl e
                | Inr (ctx2, unique_axes) \<Rightarrow> Inr ctx2)"

section \<open>Observing a result\<close>

text \<open>The shape of output slot \<open>k\<close> after a call, or the error the call failed with.\<close>

definition result_shape ::
  "nat \<Rightarrow> InferenceError + InferenceContext \<Rightarrow> InferenceError + Dimension list option" where
  "result_shape k r = map_sum id (\<lambda>c. shape (getOutputType c k)) r"

text \<open>An output slot as the engine hands it to an inference function: nothing inferred yet.\<close>

definition fresh_slot :: TensorTypeInfo where
  "fresh_slot = \<lparr>elem_type = None, shape = None\<rparr>"

section \<open>Example nodes\<close>

definition Pad_example_ctx :: InferenceContext where
  "Pad_example_ctx =
     \<lparr>inputTypes = [\<lparr>elem_type = Some FLOAT, shape = Some [DimValue 3, DimParam ''N'']\<rparr>],
      inputData = [None],
      attributes = [(''pads'', AttrInts [1, 2, 1, - 2])],
      outputTypes = [\<lparr>elem_type = None, shape = None\<rparr>]\<rparr>"

definition Pad_net_zero_ctx :: InferenceContext where
  "Pad_net_zero_ctx =
     \<lparr>inputTypes = [\<lparr>elem_type = Some FLOAT, shape = Some [DimParam ''N'']\<rparr>],
      inputData = [None],
      attributes = [(''pads'', AttrInts [2, - 2])],
      outputTypes = [\<lparr>elem_type = None, shape = None\<rparr>]\<rparr>"

definition Scatter_example_ctx :: InferenceContext where
  "Scatter_example_ctx =
     \<lparr>inputTypes = [\<lparr>elem_type = Some FLOAT, shape = Some [DimValue 3, DimParam ''N'']\<rparr>,
                    \<lparr>elem_type = Some INT64, shape = Some [DimValue 7]\<rparr>,
                    \<lparr>elem_type = Some DOUBLE, shape = None\<rparr>],
      inputData = [None, None, None],
      attributes = [],
      outputTypes = [fresh_slot]\<rparr>"

definition Unique_example_ctx :: InferenceContext where
  "Unique_example_ctx =
     \<lparr>inputTypes = [\<lparr>elem_type = Some FLOAT, shape = Some [DimValue 2, DimValue 4, DimParam ''K'']\<rparr>],
      inputData = [None],
      attributes = [(''axis'', AttrInt 1)],
      outputTypes = [fresh_slot, fresh_slot, fresh_slot]\<rparr>"

definition Reshape_example_ctx :: InferenceContext where
  "Reshape_example_ctx =
     \<lparr>inputTypes = [\<lparr>elem_type = Some FLOAT, shape = Some [DimValue 2, DimValue 3, DimValue 4]\<rparr>,
                    \<lparr>elem_type = Some INT64, shape = Some [DimValue 2]\<rparr>],
      inputData = [None,
        Some \<lparr>data_type = Some INT64, raw_data = None, int64_data = [- 1, 4], int32_data = []\<rparr>],
      attributes = [],
      outputTypes = [fresh_slot]\<rparr>"

text \<open>A constant int64 tensor given by its typed field.\<close>

definition int64_tensor :: "int list \<Rightarrow> TensorProto" where
  "int64_tensor vs = \<lparr>data_type = Some INT64, raw_data = None, int64_data = vs, int32_data = []\<rparr>"

definition Reshape_no_minus_one_ctx :: InferenceContext where
  "Reshape_no_minus_one_ctx =
     \<lparr>inputTypes = [\<lparr>elem_type = Some FLOAT, shape = Some [DimValue 2, DimValue 3, DimValue 4]\<rparr>,
                    \<lparr>elem_type = Some INT64, shape = Some [DimValue 2]\<rparr>],
      inputData = [None, Some (int64_tensor [5, 5])],
      attributes = [],
      outputTypes = [fresh_slot]\<rparr>"

definition Reshape_zero_product_ctx :: InferenceContext where
  "Reshape_zero_product_ctx =
     \<lparr>inputTypes = [\<lparr>elem_type = Some FLOAT, shape = Some [DimValue 0, DimValue 3]\<rparr>,
                    \<lparr>elem_type = Some INT64, shape = Some [DimValue 2]\<rparr>],
      inputData = [None, Some (int64_tensor [0, - 1])],
      attributes = [],
      outputTypes = [fresh_slot]\<rparr>"

definition Reshape_zero_out_of_bounds_ctx :: InferenceContext where
  "Reshape_zero_out_of_bounds_ctx =
     \<lparr>inputTypes = [\<lparr>elem_type = Some FLOAT, shape = Some [DimValue 2, DimValue 3]\<rparr>,
                    \<lparr>elem_type = Some INT64, shape = Some [DimValue 3]\<rparr>],
      inputData = [None, Some (int64_tensor [2, 3, 0])],
      attributes = [],
      outputTypes = [fresh_slot]\<rparr>"

definition Slice_example_ctx :: InferenceContext where
  "Slice_example_ctx =
     \<lparr>inputTypes = [\<lparr>elem_type = Some FLOAT, shape = Some [DimValue 4, DimValue 4]\<rparr>,
                    \<lparr>elem_type = Some INT64, shape = Some [DimValue 2]\<rparr>,
                    \<lparr>elem_type = Some INT64, shape = Some [DimValue 2]\<rparr>,
                    \<lparr>elem_type = Some INT64, shape = Some [DimValue 2]\<rparr>,
                    \<lparr>elem_type = Some INT64, shape = Some [DimValue 2]\<rparr>],
      inputData = [None, Some (int64_tensor [1, 0]), Some (int64_tensor [2, 3]),
                   Some (int64_tensor [0, 1]), Some (int64_tensor [1, 2])],
      attributes = [],
      outputTypes = [fresh_slot]\<rparr>"

definition Slice_zero_step_ctx :: InferenceContext where
  "Slice_zero_step_ctx =
     \<lparr>inputTypes = [\<lparr>elem_type = Some FLOAT, shape = Some [DimParam ''N'']\<rparr>,
                    \<lparr>elem_type = Some INT64, shape = Some [DimValue 1]\<rparr>,
                    \<lparr>elem_type = Some INT64, shape = Some [DimValue 1]\<rparr>,
                    \<lparr>elem_type = Some INT64, shape = Some [DimValue 1]\<rparr>,
                    \<lparr>elem_type = Some INT64, shape = Some [DimValue 1]\<rparr>],
      inputData = [None, Some (int64_tensor [0]), Some (int64_tensor [1]),
                   Some (int64_tensor [0]), Some (int64_tensor [0])],
      attributes = [],
      outputTypes = [fresh_slot]\<rparr>"

definition Slice_default_axes_ctx :: InferenceContext where
  "Slice_default_axes_ctx =
     \<lparr>inputTypes = [\<lparr>elem_type = Some FLOAT, shape = Some [DimValue 4, DimValue 4]\<rparr>,
                    \<lparr>elem_type = Some INT64, shape = Some [DimValue 1]\<rparr>,
                    \<lparr>elem_type = Some INT64, shape = Some [DimValue 1]\<rparr>],
      inputData = [None, Some (int64_tensor [1]), Some (int64_tensor [2])],
      attributes = [],
      outputTypes = [fresh_slot]\<rparr>"

definition Slice_wide_ctx :: InferenceContext where
  "Slice_wide_ctx =
     \<lparr>inputTypes = [\<lparr>elem_type = Some UINT8, shape = Some [DimValue 9007199254740993]\<rparr>,
                    \<lparr>elem_type = Some INT64, shape = Some [DimValue 1]\<rparr>,
                    \<lparr>elem_type = Some INT64, shape = Some [DimValue 1]\<rparr>],
      inputData = [None, Some (int64_tensor [0]), Some (int64_tensor [9007199254740993])],
      attributes = [],
      outputTypes = [fresh_slot]\<rparr>"

definition Slice_explicit_axes_ctx :: InferenceContext where
  "Slice_explicit_axes_ctx =
     \<lparr>inputTypes = [\<lparr>elem_type = Some FLOAT, shape = Some [DimValue 4, DimValue 4]\<rparr>,
                    \<lparr>elem_type = Some INT64, shape = Some [DimValue 1]\<rparr>,
                    \<lparr>elem_type = Some INT64, shape = Some [DimValue 1]\<rparr>,
                    \<lparr>elem_type = Some INT64, shape = Some [DimValue 2]\<rparr>],
      inputData = [None, Some (int64_tensor [1]), Some (int64_tensor [2]),
                   Some (int64_tensor [0, 1])],
      attributes = [],
      outputTypes = [fresh_slot]\<rparr>"

definition Concat_wide_ctx :: InferenceContext where
  "Concat_wide_ctx =
     \<lparr>inputTypes = [\<lparr>elem_type = Some UINT8, shape = Some [DimValue 4294967296, DimValue 2]\<rparr>,
                    \<lparr>elem_type = Some UINT8, shape = Some [DimValue 5, DimValue 2]\<rparr>],
      inputData = [None, None],
      attributes = [(''axis'', AttrInt 0)],
      outputTypes = [fresh_slot]\<rparr>"

definition Gather_example_ctx :: InferenceContext where
  "Gather_example_ctx =
     \<lparr>inputTypes = [\<lparr>elem_type = Some FLOAT, shape = Some [DimValue 3, DimParam ''C'', DimValue 5]\<rparr>,
                    \<lparr>elem_type = Some INT64, shape = Some [DimValue 2, DimValue 7]\<rparr>],
      inputData = [None, None],
      attributes = [(''axis'', AttrInt (- 2))],
      outputTypes = [fresh_slot]\<rparr>"

definition Squeeze_unsorted_ctx :: InferenceContext where
  "Squeeze_unsorted_ctx =
     \<lparr>inputTypes = [\<lparr>elem_type = Some FLOAT, shape = Some [DimValue 3, DimValue 1]\<rparr>],
      inputData = [None],
      attributes = [(''axes'', AttrInts [1, 0])],
      outputTypes = [fresh_slot]\<rparr>"

definition Squeeze_no_axes_ctx :: InferenceContext where
  "Squeeze_no_axes_ctx =
     \<lparr>inputTypes = [\<lparr>elem_type = Some FLOAT, shape = Some [DimValue 1, DimValue 3, DimValue 1]\<rparr>],
      inputData = [None],
      attributes = [],
      outputTypes = [fresh_slot]\<rparr>"

definition Tile_unknown_repeats_shape_ctx :: InferenceContext where
  "Tile_unknown_repeats_shape_ctx =
     \<lparr>inputTypes = [\<lparr>elem_type = Some FLOAT, shape = Some [DimValue 2, DimValue 3]\<rparr>,
                    \<lparr>elem_type = Some INT64, shape = None\<rparr>],
      inputData = [None,
        Some \<lparr>data_type = Some INT64, raw_data = None, int64_data = [1, 2], int32_data = []\<rparr>],
      attributes = [],
      outputTypes = [fresh_slot]\<rparr>"

section \<open>Loop invariants of Reshape\<close>

text \<open>
  The state of the first loop of Reshape after \<open>n\<close> entries of the target shape \<open>ts\<close>,
  for a data input of known shape \<open>ds\<close>, written as functions of \<open>n\<close>: the output
  dimensions so far, the position of the \<open>-1\<close> entry if one was met, the
  \<^verbatim>\<open>unresolvedZeros\<close> flags and the factors of \<^verbatim>\<open>outputProduct\<close>. They are used
  to state the invariant only; the theorems about Reshape are stated without them.
\<close>

definition Reshape_dim :: "int list \<Rightarrow> Dimension list \<Rightarrow> nat \<Rightarrow> Dimension" where
  "Reshape_dim ts ds i =
     (if ts ! i = 0 then ds ! i else if 0 < ts ! i then DimValue (ts ! i) else DimUnset)"

definition Reshape_factor :: "int list \<Rightarrow> Dimension list \<Rightarrow> nat \<Rightarrow> int" where
  "Reshape_factor ts ds i =
     (if 0 < ts ! i then ts ! i
      else if ts ! i = 0 \<and> i < length ds \<and> has_dim_value (ds ! i) then dim_value (ds ! i)
      else 1)"

definition Reshape_negIndex :: "int list \<Rightarrow> nat \<Rightarrow> nat option" where
  "Reshape_negIndex ts n =
     (case filter (\<lambda>i. ts ! i = - 1) [0..<n] of [] \<Rightarrow> None | i # rest \<Rightarrow> Some i)"

definition Reshape_zeros :: "int list \<Rightarrow> Dimension list \<Rightarrow> nat \<Rightarrow> bool list" where
  "Reshape_zeros ts ds n =
     map (\<lambda>j. j < n \<and> ts ! j = 0 \<and> \<not> has_dim_value (ds ! j)) [0..<length ts]"

definition Reshape_entry_ok :: "int list \<Rightarrow> Dimension list \<Rightarrow> nat \<Rightarrow> bool" where
  "Reshape_entry_ok ts ds i =
     (- 1 \<le> ts ! i \<and> (ts ! i \<noteq> 0 \<or> i < length ds)
      \<and> (ts ! i \<noteq> - 1 \<or> Reshape_negIndex ts i = None))"

definition Reshape_state ::
  "InferenceContext \<Rightarrow> int list \<Rightarrow> Dimension list \<Rightarrow> nat
     \<Rightarrow> InferenceContext \<times> nat option \<times> bool list \<times> int" where
  "Reshape_state ctx ts ds n =
     (updOutput 0 (\<lambda>t. t\<lparr>shape := Some (map (Reshape_dim ts ds) [0..<n])\<rparr>) ctx,
      Reshape_negIndex ts n, Reshape_zeros ts ds n,
      int64 (prod_list (map (Reshape_factor ts ds) [0..<n])))"

section \<open>Loop invariants of Slice\<close>

text \<open>
  The state of the second loop of Slice after \<open>k\<close> axes, written as functions of \<open>k\<close>:
  the normalised axis of entry \<open>k\<close> and the output dimensions so far. They are used to
  state the invariant only; the theorems about Slice are stated without them.
\<close>

definition Slice_axis :: "nat \<Rightarrow> int list \<Rightarrow> nat \<Rightarrow> int" where
  "Slice_axis n axes k = (if axes ! k < 0 then axes ! k + int n else axes ! k)"

fun Slice_dims ::
  "Dimension list \<Rightarrow> int list \<Rightarrow> int list \<Rightarrow> int list \<Rightarrow> int list \<Rightarrow> nat \<Rightarrow> Dimension list" where
  "Slice_dims ds starts ends axes steps 0 = ds"
| "Slice_dims ds starts ends axes steps (Suc k) =
     (if has_dim_value (ds ! nat (Slice_axis (length ds) axes k))
      then (Slice_dims ds starts ends axes steps k)
             [nat (Slice_axis (length ds) axes k) :=
                DimValue (Slice_length (dim_value (ds ! nat (Slice_axis (length ds) axes k)))
                            (starts ! k) (ends ! k) (steps ! k))]
      else Slice_dims ds starts ends axes steps k)"

definition Slice_entry_ok :: "Dimension list \<Rightarrow> int list \<Rightarrow> int list \<Rightarrow> nat \<Rightarrow> bool" where
  "Slice_entry_ok ds axes steps k =
     (0 \<le> Slice_axis (length ds) axes k \<and> Slice_axis (length ds) axes k < int (length ds)
      \<and> Slice_axis (length ds) axes k \<notin> Slice_axis (length ds) axes ` {0..<k}
      \<and> (steps ! k \<noteq> 0 \<or> \<not> has_dim_value (ds ! nat (Slice_axis (length ds) axes k))))"

definition Slice_state ::
  "InferenceContext \<Rightarrow> Dimension list \<Rightarrow> int list \<Rightarrow> int list \<Rightarrow> int list \<Rightarrow> int list \<Rightarrow> nat
     \<Rightarrow> InferenceContext \<times> int set" where
  "Slice_state ctx ds starts ends axes steps k =
     (updOutput 0 (\<lambda>t. t\<lparr>shape := Some (Slice_dims ds starts ends axes steps k)\<rparr>) ctx,
      Slice_axis (length ds) axes ` {0..<k})"

section \<open>Machine integers and output slots: basic facts\<close>

lemma int64_id: "in_int64 x \<Longrightarrow> int64 x = x"
  by (simp add: int64_def in_int64_def)

lemma int32_id: "in_int32 x \<Longrightarrow> int32 x = x"
  by (simp add: int32_def in_int32_def)

lemma int64_one: "int64 1 = 1"
  by (simp add: int64_def)

lemma int64_mod: "int64 a mod 2 ^ 64 = a mod 2 ^ 64"
  by (simp add: int64_def mod_diff_left_eq)

lemma int64_cong: "a mod 2 ^ 64 = b mod 2 ^ 64 \<Longrightarrow> int64 a = int64 b"
  unfolding int64_def by (metis mod_add_left_eq)

lemma int64_mult_left: "int64 (int64 a * b) = int64 (a * b)"
  by (rule int64_cong) (metis int64_mod mod_mult_left_eq)

lemma outputTypes_updOutput:
  "outputTypes (updOutput k f ctx) = (outputTypes ctx)[k := f (outputTypes ctx ! k)]"
  by (simp add: updOutput_def)

lemma inputTypes_updOutput: "inputTypes (updOutput k f ctx) = inputTypes ctx"
  by (simp add: updOutput_def)

lemma attributes_updOutput: "attributes (updOutput k f ctx) = attributes ctx"
  by (simp add: updOutput_def)

lemma inputData_updOutput: "inputData (updOutput k f ctx) = inputData ctx"
  by (simp add: updOutput_def)

lemma updOutput_updOutput:
  "updOutput k g (updOutput k h ctx) = updOutput k (\<lambda>t. g (h t)) ctx"
  by (cases "k < length (outputTypes ctx)") (simp_all add: updOutput_def list_update_beyond)

lemma add_dims_foldl:
  "foldl (\<lambda>c i. updOutput 0 (add_dim (f i)) c) ctx ixs =
     (if ixs = [] then ctx
      else updOutput 0 (\<lambda>t. t\<lparr>shape := Some (shape_dims t @ map f ixs)\<rparr>) ctx)"
proof (induction ixs arbitrary: ctx)
  case Nil
  show ?case by simp
next
  case (Cons i rest)
  have "foldl (\<lambda>c i. updOutput 0 (add_dim (f i)) c) (updOutput 0 (add_dim (f i)) ctx) rest =
      (if rest = [] then updOutput 0 (add_dim (f i)) ctx
       else updOutput 0 (\<lambda>t. t\<lparr>shape := Some (shape_dims t @ map f rest)\<rparr>)
              (updOutput 0 (add_dim (f i)) ctx))"
    by (rule Cons.IH)
  also have "\<dots> = updOutput 0 (\<lambda>t. t\<lparr>shape := Some (shape_dims t @ map f (i # rest))\<rparr>) ctx"
    by (simp add: updOutput_updOutput add_dim_def[abs_def] shape_dims_def)
  finally show ?case by simp
qed

lemma propagateElemType_fields:
  "inputTypes (propagateElemTypeFromInputToOutput ctx i k) = inputTypes ctx"
  "attributes (propagateElemTypeFromInputToOutput ctx i k) = attributes ctx"
  "inputData (propagateElemTypeFromInputToOutput ctx i k) = inputData ctx"
  "length (outputTypes (propagateElemTypeFromInputToOutput ctx i k)) = length (outputTypes ctx)"
  by (simp_all add: propagateElemTypeFromInputToOutput_def updOutput_def)

lemma propagateElemType_queries:
  "getInputData (propagateElemTypeFromInputToOutput ctx i k) j = getInputData ctx j"
  "getInputType (propagateElemTypeFromInputToOutput ctx i k) j = getInputType ctx j"
  "hasInputShape (propagateElemTypeFromInputToOutput ctx i k) j = hasInputShape ctx j"
  "getNumInputs (propagateElemTypeFromInputToOutput ctx i k) = getNumInputs ctx"
  by (simp_all add: getInputData_def getInputType_def hasInputShape_def getNumInputs_def
      propagateElemType_fields)

lemmas ctx_simps =
  propagateElemTypeFromInputToOutput_def propagateShapeFromInputToOutput_def
  updateOutputElemType_def updOutput_def hasNInputShapes_def hasInputShape_def
  getNumInputs_def getNumOutputs_def getInputType_def getOutputType_def getInputData_def
  getAttribute_def getRepeatedAttribute_def getAttributeOr_def shape_dims_def
  mutable_shape_def add_dim_def set_dim_def fresh_slot_def result_shape_def

section \<open>Properties of Pad\<close>

lemma Pad_loop_outputs:
  "outputTypes ctx \<noteq> [] \<Longrightarrow>
   outputTypes (Pad_loop ds pads ixs ctx) =
     (outputTypes ctx)[0 := (outputTypes ctx ! 0)
        \<lparr>shape := (if ixs = [] then shape (outputTypes ctx ! 0)
                   else Some (shape_dims (outputTypes ctx ! 0) @ map (Pad_newdim ds pads) ixs))\<rparr>]"
proof (induction ixs arbitrary: ctx)
  case Nil
  then show ?case by simp
next
  case (Cons i rest)
  have ne: "outputTypes (updOutput 0 (add_dim (Pad_newdim ds pads i)) ctx) \<noteq> []"
    using Cons.prems by (simp add: outputTypes_updOutput)
  show ?case
    using Cons.prems
    by (simp add: Cons.IH[OF ne] outputTypes_updOutput add_dim_def shape_dims_def
        split: option.splits)
qed

lemma Pad_newdim_exact:
  assumes "i < length ds"
    and "in_int64 (pads ! i + pads ! (length ds + i))"
    and "in_int64 (dim_value (ds ! i) + pads ! i)"
    and "in_int64 (dim_value (ds ! i) + pads ! i + pads ! (length ds + i))"
  shows "Pad_newdim ds pads i =
     (case ds ! i of
        DimValue v \<Rightarrow> DimValue (v + pads ! i + pads ! (length ds + i))
      | d \<Rightarrow> if pads ! i + pads ! (length ds + i) = 0 then d else DimUnset)"
  using assms by (cases "ds ! i") (simp_all add: Pad_newdim_def int64_id)

text \<open>
  C1 (as amended): for Pad with a pads attribute of length exactly twice the rank of the
  input, the output has the rank of the input; an axis whose input length is known gets
  input length + begin pad + end pad; an axis whose input length is not known passes the
  input dimension through exactly when begin pad + end pad is zero (the two pads need not
  both be zero), and is left unset otherwise. The sums are those of the code's
  \<^verbatim>\<open>int64_t\<close> arithmetic where it does not overflow.
\<close>

theorem Pad_output_shape:
  assumes arity: "inputTypes ctx \<noteq> []" "outputTypes ctx \<noteq> []"
    and shp: "shape (getInputType ctx 0) = Some ds"
    and pads: "getAttribute ctx ''pads'' = Some (AttrInts pads)"
    and len: "length pads = 2 * length ds"
    and fresh: "shape (getOutputType ctx 0) = None"
    and no_overflow:
      "\<forall>i<length ds. in_int64 (pads ! i + pads ! (length ds + i))
          \<and> in_int64 (dim_value (ds ! i) + pads ! i)
          \<and> in_int64 (dim_value (ds ! i) + pads ! i + pads ! (length ds + i))"
  shows "result_shape 0 (Pad_infer ctx) =
     Inr (Some (map (\<lambda>i. case ds ! i of
                      DimValue v \<Rightarrow> DimValue (v + pads ! i + pads ! (length ds + i))
                    | d \<Rightarrow> if pads ! i + pads ! (length ds + i) = 0 then d else DimUnset)
                  [0..<length ds]))"
proof -
  let ?ctx1 = "propagateElemTypeFromInputToOutput ctx 0 0"
  have in1: "inputTypes ?ctx1 = inputTypes ctx" and at1: "attributes ?ctx1 = attributes ctx"
    by (simp_all add: propagateElemTypeFromInputToOutput_def inputTypes_updOutput attributes_updOutput)
  have has: "hasNInputShapes ?ctx1 1"
    using arity shp
    by (simp add: hasNInputShapes_def hasInputShape_def getNumInputs_def getInputType_def in1)
  have sd: "shape_dims (getInputType ?ctx1 0) = ds"
    using shp by (simp add: shape_dims_def getInputType_def in1)
  have rp: "getRepeatedAttribute ?ctx1 ''pads'' = Some pads"
    using pads by (simp add: getRepeatedAttribute_def getAttribute_def at1)
  let ?ctx2 = "updOutput 0 mutable_shape ?ctx1"
  have ne2: "outputTypes ?ctx2 \<noteq> []"
    using arity by (simp add: outputTypes_updOutput propagateElemTypeFromInputToOutput_def)
  have sh2: "shape_dims (outputTypes ?ctx2 ! 0) = []"
    using arity fresh
    by (simp add: outputTypes_updOutput propagateElemTypeFromInputToOutput_def
        mutable_shape_def shape_dims_def getOutputType_def)
  have sh2': "shape (outputTypes ?ctx2 ! 0) = Some []"
    using arity fresh
    by (simp add: outputTypes_updOutput propagateElemTypeFromInputToOutput_def
        mutable_shape_def shape_dims_def getOutputType_def)
  have run: "Pad_infer ctx = Inr (Pad_loop ds pads [0..<length ds] ?ctx2)"
    using has sd rp len by (simp add: Pad_infer_def Let_def)
  have out: "shape (outputTypes (Pad_loop ds pads [0..<length ds] ?ctx2) ! 0) =
      Some (map (Pad_newdim ds pads) [0..<length ds])"
    using ne2 by (simp add: Pad_loop_outputs[OF ne2] sh2 sh2')
  have eq: "map (Pad_newdim ds pads) [0..<length ds] =
      map (\<lambda>i. case ds ! i of
                      DimValue v \<Rightarrow> DimValue (v + pads ! i + pads ! (length ds + i))
                    | d \<Rightarrow> if pads ! i + pads ! (length ds + i) = 0 then d else DimUnset)
                  [0..<length ds]"
    using no_overflow by (intro map_cong refl Pad_newdim_exact) auto
  show ?thesis
    unfolding run result_shape_def using out eq by (simp add: getOutputType_def)
qed

text \<open>
  The theorem at input shape \<open>(3, N)\<close> with pads \<open>[1, 2, 1, -2]\<close>: the output shape
  is \<open>(5, N)\<close>.
\<close>

theorem Pad_output_shape_witness:
  "result_shape 0 (Pad_infer Pad_example_ctx) = Inr (Some [DimValue 5, DimParam ''N''])"
  using Pad_output_shape[of Pad_example_ctx "[DimValue 3, DimParam ''N'']" "[1, 2, 1, - 2]"]
  by (simp add: Pad_example_ctx_def getInputType_def getOutputType_def getAttribute_def
      in_int64_def All_less_Suc upt_rec)

text \<open>
  C1 as stated fails: with input shape \<open>(N)\<close> and pads \<open>[2, -2]\<close> neither pad is zero,
  and the input dimension is passed through all the same.
\<close>

theorem Pad_net_zero_counterexample:
  "result_shape 0 (Pad_infer Pad_net_zero_ctx) = Inr (Some [DimParam ''N''])"
  by (simp add: result_shape_def Pad_infer_def Pad_net_zero_ctx_def Let_def
      propagateElemTypeFromInputToOutput_def updOutput_def hasNInputShapes_def hasInputShape_def
      getNumInputs_def getInputType_def getOutputType_def getRepeatedAttribute_def getAttribute_def
      shape_dims_def mutable_shape_def add_dim_def Pad_newdim_def int64_def upt_rec)

section \<open>Properties of Scatter\<close>

text \<open>
  C2: for Scatter, whatever the node's other inputs and attributes are, the call succeeds
  and leaves in the (fresh) output slot exactly the type of input 0: its element type and
  its shape, or no shape when input 0 has none. The types and shapes of \<open>indices\<close>
  and \<open>updates\<close> are arbitrary here: they are never read, so nothing fails because of
  them.
\<close>

theorem Scatter_output_is_input_0:
  assumes "inputTypes ctx \<noteq> []" and "outputTypes ctx = [fresh_slot]"
  shows "Scatter_infer ctx = Inr (ctx\<lparr>outputTypes := [getInputType ctx 0]\<rparr>)"
proof (cases "shape (getInputType ctx 0)")
  case None
  then show ?thesis
    using assms
    by (simp add: Scatter_infer_def Let_def hasNInputShapes_def hasInputShape_def
        propagateElemTypeFromInputToOutput_def updOutput_def getInputType_def getNumInputs_def
        fresh_slot_def)
next
  case (Some ds)
  then show ?thesis
    using assms
    by (simp add: Scatter_infer_def Let_def hasNInputShapes_def hasInputShape_def
        propagateElemTypeFromInputToOutput_def propagateShapeFromInputToOutput_def
        updOutput_def getInputType_def getNumInputs_def fresh_slot_def shape_dims_def)
qed

text \<open>
  The theorem at a node whose \<open>indices\<close> and \<open>updates\<close> inputs have shapes that do not
  fit the data input: the output is the type of input 0.
\<close>

theorem Scatter_output_is_input_0_witness:
  "Scatter_infer Scatter_example_ctx =
     Inr (Scatter_example_ctx\<lparr>outputTypes :=
            [\<lparr>elem_type = Some FLOAT, shape = Some [DimValue 3, DimParam ''N'']\<rparr>]\<rparr>)"
  using Scatter_output_is_input_0[of Scatter_example_ctx]
  by (simp add: Scatter_example_ctx_def getInputType_def)

section \<open>Properties of Unique\<close>

lemma Unique_loop_foldl:
  "Unique_loop ds axis ixs ctx =
     foldl (\<lambda>c i. updOutput 0 (add_dim (if int i \<noteq> axis then ds ! i else DimUnset)) c) ctx ixs"
  by (induction ixs arbitrary: ctx) simp_all

text \<open>
  C3: for Unique on a node with \<open>n\<close> fresh output slots (1 to 4): without an axis
  attribute output Y is a 1-D shape of unknown length; with an axis attribute (a value that
  fits an \<^verbatim>\<open>int\<close>) Y has the rank of the input, every axis other than the
  selected one is the input's dimension and the selected axis is unset (an input of rank 0
  or of unknown shape leaves Y without a shape); and each of the optional outputs the node
  has (slots 1 to \<open>n - 1\<close>) is an int64 tensor of 1-D unknown-length shape.
\<close>

theorem Unique_output_shapes:
  assumes ins: "inputTypes ctx \<noteq> []"
    and outs: "outputTypes ctx = replicate n fresh_slot" "1 \<le> n" "n \<le> 4"
    and ax: "case getAttribute ctx ''axis'' of None \<Rightarrow> True | Some a \<Rightarrow> in_int32 (attr_i a)"
  shows "Unique_infer ctx = Inr (ctx\<lparr>outputTypes :=
      \<lparr>elem_type = elem_type (getInputType ctx 0),
        shape = (case getAttribute ctx ''axis'' of
                   None \<Rightarrow> Some [DimUnset]
                 | Some a \<Rightarrow>
                     (let ds = shape_dims (getInputType ctx 0) in
                      if ds = [] then None
                      else Some (map (\<lambda>i. if int i = attr_i a then DimUnset else ds ! i)
                                   [0..<length ds])))\<rparr>
      # replicate (n - 1) \<lparr>elem_type = Some INT64, shape = Some [DimUnset]\<rparr>\<rparr>)"
proof -
  have n: "n = 1 \<or> n = 2 \<or> n = 3 \<or> n = 4" using outs by linarith
  have neq: "(\<lambda>i. if int i \<noteq> x then ds ! i else DimUnset) = (\<lambda>i. if int i = x then DimUnset else ds ! i)"
    for x and ds :: "Dimension list"
    by auto
  show ?thesis
  proof (cases "getAttribute ctx ''axis''")
    case None
    then show ?thesis
      unfolding Unique_infer_def Let_def
      using n outs(1)
      by (auto simp add: Unique_optional_output_def ctx_simps
          numeral_2_eq_2 numeral_3_eq_3 eval_nat_numeral)
  next
    case (Some a)
    then have a32: "int32 (attr_i a) = attr_i a" using ax by (simp add: int32_id)
    show ?thesis
      unfolding Unique_infer_def Let_def Unique_loop_foldl add_dims_foldl neq
      using n outs(1) Some
      by (auto simp add: Unique_optional_output_def ctx_simps a32
          numeral_2_eq_2 numeral_3_eq_3 eval_nat_numeral cong: if_cong)
  qed
qed

text \<open>The theorem at input shape \<open>(2, 4, K)\<close>, axis 1, three output slots.\<close>

theorem Unique_output_shapes_witness:
  "Unique_infer Unique_example_ctx = Inr (Unique_example_ctx\<lparr>outputTypes :=
     [\<lparr>elem_type = Some FLOAT, shape = Some [DimValue 2, DimUnset, DimParam ''K'']\<rparr>,
      \<lparr>elem_type = Some INT64, shape = Some [DimUnset]\<rparr>,
      \<lparr>elem_type = Some INT64, shape = Some [DimUnset]\<rparr>]\<rparr>)"
  using Unique_output_shapes[of Unique_example_ctx 3]
  by (simp add: Unique_example_ctx_def getInputType_def getAttribute_def shape_dims_def
      in_int32_def numeral_3_eq_3 upt_rec)

section \<open>Properties of Reshape\<close>

lemma Reshape_loop_append:
  "Reshape_loop ts D (xs @ ys) st =
     (case Reshape_loop ts D xs st of Inl e \<Rightarrow> Inl e | Inr st' \<Rightarrow> Reshape_loop ts D ys st')"
proof (induction xs arbitrary: st)
  case Nil
  show ?case by simp
next
  case (Cons i rest)
  obtain ctx neg uz p where st: "st = (ctx, neg, uz, p)" by (cases st) auto
  show ?case
    unfolding st by (simp add: Cons.IH Let_def)
qed

lemma map_upt_update:
  "n < m \<Longrightarrow> (map f [0..<m])[n := v] = map (\<lambda>j. if j = n then v else f j) [0..<m]"
  by (rule nth_equalityI) auto

lemma Reshape_negIndex_Suc:
  "Reshape_negIndex ts (Suc n) =
     (if Reshape_negIndex ts n \<noteq> None then Reshape_negIndex ts n
      else if ts ! n = - 1 then Some n else None)"
  by (simp add: Reshape_negIndex_def split: list.splits)

lemma Reshape_step:
  assumes out: "outputTypes ctx \<noteq> []" and n: "n < length ts" and D: "shape D = Some ds"
  shows "Reshape_loop ts D [n] (Reshape_state ctx ts ds n) =
     (if Reshape_entry_ok ts ds n then Inr (Reshape_state ctx ts ds (Suc n))
      else Reshape_loop ts D [n] (Reshape_state ctx ts ds n))"
    and "\<not> Reshape_entry_ok ts ds n \<Longrightarrow>
         \<exists>msg. Reshape_loop ts D [n] (Reshape_state ctx ts ds n) = Inl (ShapeInferenceError msg)"
proof -
  have sd: "shape_dims D = ds" using D by (simp add: shape_dims_def)
  have k: "length (shape_dims (getOutputType
        (updOutput 0 (add_dim DimUnset)
          (updOutput 0 (\<lambda>t. t\<lparr>shape := Some (map (Reshape_dim ts ds) [0..<n])\<rparr>) ctx)) 0)) - Suc 0 = n"
    using out by (simp add: updOutput_def getOutputType_def add_dim_def shape_dims_def)
  have upd: "updOutput 0 (set_dim n d)
        (updOutput 0 (add_dim DimUnset)
          (updOutput 0 (\<lambda>t. t\<lparr>shape := Some (map (Reshape_dim ts ds) [0..<n])\<rparr>) ctx)) =
      updOutput 0 (\<lambda>t. t\<lparr>shape := Some (map (Reshape_dim ts ds) [0..<n] @ [d])\<rparr>) ctx" for d
    by (simp add: updOutput_updOutput set_dim_def add_dim_def shape_dims_def list_update_append)
  have upd0: "updOutput 0 (add_dim DimUnset)
          (updOutput 0 (\<lambda>t. t\<lparr>shape := Some (map (Reshape_dim ts ds) [0..<n])\<rparr>) ctx) =
      updOutput 0 (\<lambda>t. t\<lparr>shape := Some (map (Reshape_dim ts ds) [0..<n] @ [DimUnset])\<rparr>) ctx"
    by (simp add: updOutput_updOutput add_dim_def shape_dims_def)
  have z3: "Reshape_zeros ts ds (Suc n) = Reshape_zeros ts ds n" if "ts ! n \<noteq> 0"
    unfolding Reshape_zeros_def using that by (auto simp add: less_Suc_eq)
  have z1': "(Reshape_zeros ts ds n)[n := True] = Reshape_zeros ts ds (Suc n)"
    if "ts ! n = 0" "\<not> has_dim_value (ds ! n)"
    unfolding Reshape_zeros_def using n that
    by (simp add: map_upt_update) (auto simp add: less_Suc_eq)
  have z2': "(Reshape_zeros ts ds n)[n := True, n := False] = Reshape_zeros ts ds (Suc n)"
    if "ts ! n = 0" "has_dim_value (ds ! n)"
    unfolding Reshape_zeros_def using n that
    by (simp add: map_upt_update) (auto simp add: less_Suc_eq)
  have sdo: "shape_dims (getOutputType (updOutput 0 (\<lambda>t. t\<lparr>shape := Some xs\<rparr>) ctx) 0) = xs" for xs
    using out by (simp add: updOutput_def getOutputType_def shape_dims_def)
  have copyv: "DimValue (dim_value (ds ! n)) = ds ! n" if "has_dim_value (ds ! n)"
    using that by (cases "ds ! n") simp_all
  consider (neg) "ts ! n = - 1" | (zero) "ts ! n = 0" | (pos) "0 < ts ! n" | (bad) "ts ! n < - 1"
    by linarith
  then have both: "(Reshape_entry_ok ts ds n \<longrightarrow>
        Reshape_loop ts D [n] (Reshape_state ctx ts ds n) = Inr (Reshape_state ctx ts ds (Suc n)))
      \<and> (\<not> Reshape_entry_ok ts ds n \<longrightarrow>
           (\<exists>msg. Reshape_loop ts D [n] (Reshape_state ctx ts ds n) = Inl (ShapeInferenceError msg)))"
  proof cases
    case neg
    then show ?thesis
      using z3[of] 
      by (simp add: Reshape_state_def Reshape_entry_ok_def Let_def k sdo upd0 Reshape_negIndex_Suc
          Reshape_dim_def Reshape_factor_def z3)
  next
    case zero
    show ?thesis
    proof (cases "n < length ds")
      case False
      then show ?thesis
        using zero by (simp add: Reshape_state_def Reshape_entry_ok_def Let_def k D sd)
    next
      case True
      show ?thesis
      proof (cases "ds ! n")
        case (DimValue v)
        then show ?thesis
          using zero True z2'
          by (simp add: Reshape_state_def Reshape_entry_ok_def Let_def k D sd upd
              Reshape_negIndex_Suc Reshape_dim_def Reshape_factor_def int64_mult_left)
      next
        case (DimParam p)
        then show ?thesis
          using zero True z1'
          by (simp add: Reshape_state_def Reshape_entry_ok_def Let_def k D sd upd
              Reshape_negIndex_Suc Reshape_dim_def Reshape_factor_def)
      next
        case DimUnset
        then show ?thesis
          using zero True z1'
          by (simp add: Reshape_state_def Reshape_entry_ok_def Let_def k sdo D sd upd0
              Reshape_negIndex_Suc Reshape_dim_def Reshape_factor_def)
      qed
    qed
  next
    case pos
    then show ?thesis
      by (simp add: Reshape_state_def Reshape_entry_ok_def Let_def k upd
          Reshape_negIndex_Suc Reshape_dim_def Reshape_factor_def z3 int64_mult_left)
  next
    case bad
    then show ?thesis
      by (simp add: Reshape_state_def Reshape_entry_ok_def Let_def k)
  qed
  show "Reshape_loop ts D [n] (Reshape_state ctx ts ds n) =
     (if Reshape_entry_ok ts ds n then Inr (Reshape_state ctx ts ds (Suc n))
      else Reshape_loop ts D [n] (Reshape_state ctx ts ds n))"
    using both by simp
  show "\<exists>msg. Reshape_loop ts D [n] (Reshape_state ctx ts ds n) = Inl (ShapeInferenceError msg)"
    if "\<not> Reshape_entry_ok ts ds n"
    using both that by simp
qed

lemma Reshape_loop_prefix:
  assumes out: "outputTypes ctx \<noteq> []" and D: "shape D = Some ds" and n: "n \<le> length ts"
  shows "((\<forall>i<n. Reshape_entry_ok ts ds i) \<longrightarrow>
            Reshape_loop ts D [0..<n] (Reshape_state ctx ts ds 0) = Inr (Reshape_state ctx ts ds n))
       \<and> (\<not> (\<forall>i<n. Reshape_entry_ok ts ds i) \<longrightarrow>
            (\<exists>msg. Reshape_loop ts D [0..<n] (Reshape_state ctx ts ds 0) =
               Inl (ShapeInferenceError msg)))"
  using n
proof (induction n)
  case 0
  show ?case by simp
next
  case (Suc n)
  then have n: "n < length ts" and IH:
    "(\<forall>i<n. Reshape_entry_ok ts ds i) \<longrightarrow>
       Reshape_loop ts D [0..<n] (Reshape_state ctx ts ds 0) = Inr (Reshape_state ctx ts ds n)"
    "\<not> (\<forall>i<n. Reshape_entry_ok ts ds i) \<longrightarrow>
       (\<exists>msg. Reshape_loop ts D [0..<n] (Reshape_state ctx ts ds 0) =
          Inl (ShapeInferenceError msg))"
    by simp_all
  have app: "Reshape_loop ts D [0..<Suc n] st =
      (case Reshape_loop ts D [0..<n] st of Inl e \<Rightarrow> Inl e
       | Inr st' \<Rightarrow> Reshape_loop ts D [n] st')" for st
    using Reshape_loop_append[of ts D "[0..<n]" "[n]" st] by simp
  show ?case
  proof (cases "\<forall>i<n. Reshape_entry_ok ts ds i")
    case False
    then obtain msg where
      "Reshape_loop ts D [0..<n] (Reshape_state ctx ts ds 0) = Inl (ShapeInferenceError msg)"
      using IH(2) by blast
    then have "\<exists>msg. Reshape_loop ts D [0..<Suc n] (Reshape_state ctx ts ds 0) =
        Inl (ShapeInferenceError msg)"
      unfolding app by simp
    moreover have "\<not> (\<forall>i<Suc n. Reshape_entry_ok ts ds i)"
      using False by (auto simp add: less_Suc_eq)
    ultimately show ?thesis by blast
  next
    case True
    then have pre: "Reshape_loop ts D [0..<n] (Reshape_state ctx ts ds 0) =
        Inr (Reshape_state ctx ts ds n)"
      using IH(1) by blast
    show ?thesis
    proof (cases "Reshape_entry_ok ts ds n")
      case ok: True
      have "Reshape_loop ts D [0..<Suc n] (Reshape_state ctx ts ds 0) =
          Inr (Reshape_state ctx ts ds (Suc n))"
        unfolding app pre using Reshape_step(1)[OF out n D] ok by simp
      moreover have "\<forall>i<Suc n. Reshape_entry_ok ts ds i"
        using True ok by (auto simp add: less_Suc_eq)
      ultimately show ?thesis by blast
    next
      case bad: False
      have "\<exists>msg. Reshape_loop ts D [0..<Suc n] (Reshape_state ctx ts ds 0) =
          Inl (ShapeInferenceError msg)"
        unfolding app pre using Reshape_step(2)[OF out n D bad] by simp
      moreover have "\<not> (\<forall>i<Suc n. Reshape_entry_ok ts ds i)"
        using bad by auto
      ultimately show ?thesis by blast
    qed
  qed
qed

lemma Reshape_input_product_valid:
  "snd (Reshape_input_product ds uz ixs p) =
     (\<forall>i\<in>set ixs. has_dim_value (ds ! i) \<or> (i < length uz \<and> uz ! i))"
  by (induction ixs arbitrary: p) auto

lemma Reshape_input_product_value:
  assumes "\<forall>i\<in>set ixs. has_dim_value (ds ! i) \<or> (i < length uz \<and> uz ! i)"
  shows "int64 (fst (Reshape_input_product ds uz ixs p)) =
     int64 (p * prod_list (map (\<lambda>j. if has_dim_value (ds ! j) then dim_value (ds ! j) else 1) ixs))"
  using assms
proof (induction ixs arbitrary: p)
  case Nil
  show ?case by simp
next
  case (Cons i rest)
  show ?case
  proof (cases "has_dim_value (ds ! i)")
    case True
    have "int64 (fst (Reshape_input_product ds uz rest (int64 (p * dim_value (ds ! i))))) =
        int64 (int64 (p * dim_value (ds ! i)) *
          prod_list (map (\<lambda>j. if has_dim_value (ds ! j) then dim_value (ds ! j) else 1) rest))"
      using Cons.prems by (intro Cons.IH) simp
    then show ?thesis
      using True by (simp add: int64_mult_left mult.assoc)
  next
    case False
    then show ?thesis
      using Cons.prems Cons.IH[of p] by simp
  qed
qed

lemma Reshape_input_product_in_range:
  "in_int64 p \<Longrightarrow> in_int64 (fst (Reshape_input_product ds uz ixs p))"
proof (induction ixs arbitrary: p)
  case Nil
  then show ?case by simp
next
  case (Cons i rest)
  have "in_int64 (int64 x)" for x
    by (simp add: in_int64_def int64_def)
  then show ?case
    using Cons by simp
qed

lemma Reshape_negIndex_None: "Reshape_negIndex ts n = None \<longleftrightarrow> (\<forall>j<n. ts ! j \<noteq> - 1)"
proof -
  have "Reshape_negIndex ts n = None \<longleftrightarrow> filter (\<lambda>i. ts ! i = - 1) [0..<n] = []"
    by (simp add: Reshape_negIndex_def split: list.splits)
  also have "\<dots> \<longleftrightarrow> (\<forall>j<n. ts ! j \<noteq> - 1)"
    by (auto simp add: filter_empty_conv)
  finally show ?thesis .
qed

lemma Reshape_negIndex_Some: "Reshape_negIndex ts n = Some k \<Longrightarrow> k < n \<and> ts ! k = - 1"
proof -
  assume "Reshape_negIndex ts n = Some k"
  then obtain rest where "filter (\<lambda>i. ts ! i = - 1) [0..<n] = k # rest"
    by (auto simp add: Reshape_negIndex_def split: list.splits)
  then have "k \<in> set (filter (\<lambda>i. ts ! i = - 1) [0..<n])" by simp
  then show ?thesis by simp
qed

lemma Reshape_entries_ok_iff:
  "(\<forall>i<m. Reshape_entry_ok ts ds i) \<longleftrightarrow>
     (\<forall>i<m. - 1 \<le> ts ! i \<and> (ts ! i = 0 \<longrightarrow> i < length ds))
     \<and> (\<forall>i<m. \<forall>j<m. ts ! i = - 1 \<and> ts ! j = - 1 \<longrightarrow> i = j)"
  (is "?L \<longleftrightarrow> ?A \<and> ?U")
proof
  assume L: ?L
  have A: ?A using L by (auto simp add: Reshape_entry_ok_def)
  have U: ?U
  proof (intro allI impI)
    fix i j assume i: "i < m" and j: "j < m" and e: "ts ! i = - 1 \<and> ts ! j = - 1"
    have ni: "\<forall>k<i. ts ! k \<noteq> - 1"
      using L i e by (auto simp add: Reshape_entry_ok_def Reshape_negIndex_None)
    have nj: "\<forall>k<j. ts ! k \<noteq> - 1"
      using L j e by (auto simp add: Reshape_entry_ok_def Reshape_negIndex_None)
    show "i = j"
      using ni nj e by (meson linorder_neqE_nat)
  qed
  show "?A \<and> ?U" using A U by blast
next
  assume R: "?A \<and> ?U"
  show ?L
  proof (intro allI impI)
    fix i assume i: "i < m"
    have "Reshape_negIndex ts i = None" if "ts ! i = - 1"
      unfolding Reshape_negIndex_None
    proof (intro allI impI)
      fix j assume "j < i"
      then show "ts ! j \<noteq> - 1" using R i that by (metis less_irrefl less_trans)
    qed
    then show "Reshape_entry_ok ts ds i"
      using R i by (auto simp add: Reshape_entry_ok_def)
  qed
qed

lemma cpp_div_nonneg: "0 \<le> a \<Longrightarrow> 0 < b \<Longrightarrow> cpp_div a b = a div b"
  by (simp add: cpp_div_def sgn_if)

lemma cpp_mod_nonneg: "0 \<le> a \<Longrightarrow> 0 < b \<Longrightarrow> cpp_mod a b = a mod b"
  by (simp add: cpp_mod_def cpp_div_nonneg minus_mult_div_eq_mod)

lemma prod_list_nonneg_int: "(\<forall>x\<in>set xs. (0::int) \<le> x) \<Longrightarrow> 0 \<le> prod_list xs"
  by (induction xs) simp_all

lemma Reshape_final_dims:
  assumes k: "k < length ts" "ts ! k = - 1"
    and uniq: "\<forall>i<length ts. \<forall>j<length ts. ts ! i = - 1 \<and> ts ! j = - 1 \<longrightarrow> i = j"
    and ge: "\<forall>i<length ts. - 1 \<le> ts ! i"
  shows "(map (Reshape_dim ts ds) [0..<length ts])[k := d] =
     map (\<lambda>i. if ts ! i = 0 then ds ! i else if 0 < ts ! i then DimValue (ts ! i) else d)
       [0..<length ts]"
proof (rule nth_equalityI)
  show "length ((map (Reshape_dim ts ds) [0..<length ts])[k := d]) =
      length (map (\<lambda>i. if ts ! i = 0 then ds ! i else if 0 < ts ! i then DimValue (ts ! i) else d)
        [0..<length ts])"
    by simp
next
  fix i assume "i < length ((map (Reshape_dim ts ds) [0..<length ts])[k := d])"
  then have i: "i < length ts" by simp
  show "(map (Reshape_dim ts ds) [0..<length ts])[k := d] ! i =
      map (\<lambda>i. if ts ! i = 0 then ds ! i else if 0 < ts ! i then DimValue (ts ! i) else d)
        [0..<length ts] ! i"
  proof (cases "i = k")
    case True
    then show ?thesis using k by simp
  next
    case False
    then have "ts ! i \<noteq> - 1" using uniq i k by blast
    moreover have "- 1 \<le> ts ! i" using ge i by blast
    ultimately have "ts ! i = 0 \<or> 0 < ts ! i" by linarith
    then show ?thesis using False i by (auto simp add: Reshape_dim_def)
  qed
qed

lemma Reshape_no_neg_dims:
  assumes none: "\<forall>i<length ts. ts ! i \<noteq> - 1" and ge: "\<forall>i<length ts. - 1 \<le> ts ! i"
  shows "map (Reshape_dim ts ds) [0..<length ts] =
     map (\<lambda>i. if ts ! i = 0 then ds ! i else if 0 < ts ! i then DimValue (ts ! i) else d)
       [0..<length ts]"
proof (rule map_cong[OF refl])
  fix i assume "i \<in> set [0..<length ts]"
  then have i: "i < length ts" by simp
  have "ts ! i \<noteq> - 1" "- 1 \<le> ts ! i" using none ge i by auto
  then have "ts ! i = 0 \<or> 0 < ts ! i" by linarith
  then show "Reshape_dim ts ds i =
      (if ts ! i = 0 then ds ! i else if 0 < ts ! i then DimValue (ts ! i) else d)"
    by (auto simp add: Reshape_dim_def)
qed

text \<open>
  C4 (as amended): Reshape with a constant target shape \<open>ts\<close> (read from either encoding
  of the initializer), a data input of known shape \<open>ds\<close> and a fresh output slot. \<open>Q\<close> is
  the product of the explicit (positive) and copied (entry 0 at a position of the input
  shape, known input length) dimensions, \<open>P\<close> the product of the known input lengths, the
  input element count when all are known; \<open>known\<close> says that every input length that is
  not known sits under an entry 0. Dimension values are non-negative and the two products
  fit an \<^verbatim>\<open>int64_t\<close>. The call succeeds exactly when \<open>ok\<close> holds: every entry is at
  least \<open>-1\<close>, every entry 0 is at a position of the input shape, at most one entry is
  \<open>-1\<close>, and, only if there is one, \<open>Q\<close> is not 0 and divides \<open>P\<close> when \<open>known\<close>
  holds. Then the output has one dimension per entry: an entry 0 gives the input dimension
  at that position, a positive entry is taken literally, and the entry \<open>-1\<close> gives
  \<open>P div Q\<close> when \<open>known\<close> holds and is left unset otherwise. In every other case the
  call fails with a shape inference error. Without an entry \<open>-1\<close> the element counts
  are not compared.
\<close>

theorem Reshape_output_shape:
  assumes arity: "inputTypes ctx \<noteq> []" "outputTypes ctx \<noteq> []"
    and tgt: "getInputData ctx 1 = Some t"
      "ts = (case raw_data t of Some bytes \<Rightarrow> int64s_of_bytes bytes | None \<Rightarrow> int64_data t)"
    and shp: "shape (getInputType ctx 0) = Some ds"
    and fresh: "shape (getOutputType ctx 0) = None"
    and nonneg: "\<forall>j<length ds. 0 \<le> dim_value (ds ! j)"
    and Q: "Q = prod_list (map (\<lambda>i. if 0 < ts ! i then ts ! i
                else if ts ! i = 0 \<and> i < length ds \<and> has_dim_value (ds ! i)
                then dim_value (ds ! i) else 1)
              [0..<length ts])"
    and P: "P = prod_list (map (\<lambda>j. if has_dim_value (ds ! j) then dim_value (ds ! j) else 1)
              [0..<length ds])"
    and range: "P < 2 ^ 63" "Q < 2 ^ 63"
    and known: "known = (\<forall>j<length ds. has_dim_value (ds ! j) \<or> (j < length ts \<and> ts ! j = 0))"
    and ok: "ok = ((\<forall>i<length ts. - 1 \<le> ts ! i \<and> (ts ! i = 0 \<longrightarrow> i < length ds))
        \<and> (\<forall>i<length ts. \<forall>j<length ts. ts ! i = - 1 \<and> ts ! j = - 1 \<longrightarrow> i = j)
        \<and> ((\<exists>i<length ts. ts ! i = - 1) \<longrightarrow> Q \<noteq> 0 \<and> (known \<longrightarrow> Q dvd P)))"
  shows "(ok \<longrightarrow> result_shape 0 (Reshape_infer ctx) =
            Inr (Some (map (\<lambda>i. if ts ! i = 0 then ds ! i
                              else if 0 < ts ! i then DimValue (ts ! i)
                              else if known then DimValue (P div Q) else DimUnset)
                         [0..<length ts])))
       \<and> (\<not> ok \<longrightarrow> (\<exists>msg. Reshape_infer ctx = Inl (ShapeInferenceError msg)))"
proof -
  let ?ctxp = "propagateElemTypeFromInputToOutput ctx 0 0"
  let ?D = "getInputType ctx 0"
  let ?m = "length ts"
  have outp: "outputTypes ?ctxp \<noteq> []"
    using arity by (simp add: propagateElemTypeFromInputToOutput_def updOutput_def)
  have D1: "getInputType (updOutput 0 mutable_shape ?ctxp) 0 = ?D"
    by (simp add: getInputType_def updOutput_def propagateElemTypeFromInputToOutput_def)
  have sd: "shape_dims ?D = ds" using shp by (simp add: shape_dims_def)
  have st0: "(updOutput 0 mutable_shape ?ctxp, None, replicate ?m False, 1) =
      Reshape_state ?ctxp ts ds 0"
    using arity fresh
    by (simp add: Reshape_state_def Reshape_negIndex_def Reshape_zeros_def int64_one
        map_replicate_const updOutput_def propagateElemTypeFromInputToOutput_def
        mutable_shape_def shape_dims_def getOutputType_def)
  have "getInputData ?ctxp 1 = getInputData ctx 1"
    by (simp add: getInputData_def propagateElemType_fields)
  then have data: "getInputData ?ctxp 1 = Some t"
    using tgt(1) by simp
  define second where "second = (\<lambda>(ctx2, negativeOneDim, unresolvedZeros, outputProduct).
      (case negativeOneDim of
         None \<Rightarrow> Inr ctx2
       | Some k \<Rightarrow>
           if outputProduct = (0::int)
           then Inl (ShapeInferenceError ''Invalid Target shape product of 0'')
           else
             let (inputProduct, inputProductValid) =
                   (if shape ?D = None then (1, False)
                    else Reshape_input_product (shape_dims ?D) unresolvedZeros
                           [0..<length (shape_dims ?D)] 1)
             in
             if inputProductValid
             then
               if cpp_traps inputProduct outputProduct then Inl ArithmeticTrap
               else if cpp_mod inputProduct outputProduct \<noteq> 0
               then Inl (ShapeInferenceError
                           ''Dimension could not be inferred: incompatible shapes'')
               else Inr (updOutput 0
                           (set_dim k (DimValue (int64 (cpp_div inputProduct outputProduct))))
                           ctx2)
             else Inr ctx2))"
  have infer: "Reshape_infer ctx =
      (case Reshape_loop ts ?D [0..<?m] (Reshape_state ?ctxp ts ds 0) of
         Inl e \<Rightarrow> Inl e | Inr st \<Rightarrow> second st)"
    unfolding Reshape_infer_def Let_def data option.case tgt(2)[symmetric] D1 st0 second_def
    by (rule sum.case_cong) auto
  have entries: "(\<forall>i<?m. Reshape_entry_ok ts ds i) \<longleftrightarrow>
      (\<forall>i<?m. - 1 \<le> ts ! i \<and> (ts ! i = 0 \<longrightarrow> i < length ds))
      \<and> (\<forall>i<?m. \<forall>j<?m. ts ! i = - 1 \<and> ts ! j = - 1 \<longrightarrow> i = j)"
    by (rule Reshape_entries_ok_iff)
  note loop = Reshape_loop_prefix[OF outp shp order_refl, of ts]
  show ?thesis
  proof (cases "\<forall>i<?m. Reshape_entry_ok ts ds i")
    case False
    then obtain msg where
      "Reshape_loop ts ?D [0..<?m] (Reshape_state ?ctxp ts ds 0) = Inl (ShapeInferenceError msg)"
      using loop by blast
    then have "\<exists>msg. Reshape_infer ctx = Inl (ShapeInferenceError msg)"
      unfolding infer by simp
    moreover have "\<not> ok" using False entries ok by blast
    ultimately show ?thesis by blast
  next
    case True
    then have run: "Reshape_loop ts ?D [0..<?m] (Reshape_state ?ctxp ts ds 0) =
        Inr (Reshape_state ?ctxp ts ds ?m)"
      using loop by blast
    have A: "\<forall>i<?m. - 1 \<le> ts ! i \<and> (ts ! i = 0 \<longrightarrow> i < length ds)"
      and U: "\<forall>i<?m. \<forall>j<?m. ts ! i = - 1 \<and> ts ! j = - 1 \<longrightarrow> i = j"
      using True entries by blast+
    have fac: "map (Reshape_factor ts ds) [0..<?m] =
        map (\<lambda>i. if 0 < ts ! i then ts ! i
                else if ts ! i = 0 \<and> i < length ds \<and> has_dim_value (ds ! i)
                then dim_value (ds ! i) else 1)
          [0..<?m]"
      by (simp add: Reshape_factor_def[abs_def])
    have Qnonneg: "0 \<le> Q"
      unfolding Q
    proof (rule prod_list_nonneg_int, rule ballI)
      fix x
      assume "x \<in> set (map (\<lambda>i. if 0 < ts ! i then ts ! i
                else if ts ! i = 0 \<and> i < length ds \<and> has_dim_value (ds ! i)
                then dim_value (ds ! i) else 1)
              [0..<length ts])"
      then obtain i where i: "i < ?m"
        and x: "x = (if 0 < ts ! i then ts ! i
                else if ts ! i = 0 \<and> i < length ds \<and> has_dim_value (ds ! i)
                then dim_value (ds ! i) else 1)"
        by auto
      show "0 \<le> x" unfolding x using A nonneg i by auto
    qed
    have Pnonneg: "0 \<le> P"
      unfolding P using nonneg by (intro prod_list_nonneg_int) auto
    have Qc: "int64 (prod_list (map (Reshape_factor ts ds) [0..<?m])) = Q"
      unfolding fac Q[symmetric] using Qnonneg range by (intro int64_id) (simp add: in_int64_def)
    have sdo: "shape (getOutputType (updOutput 0 (\<lambda>t. t\<lparr>shape := Some xs\<rparr>) ?ctxp) 0) = Some xs"
      for xs
      using outp by (simp add: updOutput_def getOutputType_def)
    show ?thesis
    proof (cases "Reshape_negIndex ts ?m")
      case None
      then have none: "\<forall>i<?m. ts ! i \<noteq> - 1"
        by (simp add: Reshape_negIndex_None)
      have okT: ok using A U none ok by blast
      have "Reshape_infer ctx =
          Inr (updOutput 0 (\<lambda>t. t\<lparr>shape := Some (map (Reshape_dim ts ds) [0..<?m])\<rparr>) ?ctxp)"
        unfolding infer run by (simp add: second_def Reshape_state_def None)
      then have "result_shape 0 (Reshape_infer ctx) =
          Inr (Some (map (Reshape_dim ts ds) [0..<?m]))"
        by (simp add: result_shape_def sdo)
      then show ?thesis
        using okT Reshape_no_neg_dims[OF none, of ds] A by simp
    next
      case (Some k)
      then have k: "k < ?m" "ts ! k = - 1"
        using Reshape_negIndex_Some by blast+
      have ex: "\<exists>i<?m. ts ! i = - 1" using k by blast
      have ge: "\<forall>i<?m. - 1 \<le> ts ! i" using A by blast
      show ?thesis
      proof (cases "Q = 0")
        case True
        have "\<exists>msg. Reshape_infer ctx = Inl (ShapeInferenceError msg)"
          unfolding infer run by (simp add: second_def Reshape_state_def Some Qc True)
        moreover have "\<not> ok" using ok ex True by blast
        ultimately show ?thesis by blast
      next
        case False
        then have Qpos: "0 < Q" using Qnonneg by linarith
        let ?ip = "Reshape_input_product ds (Reshape_zeros ts ds ?m) [0..<length ds] 1"
        have valid: "snd ?ip = known"
          unfolding Reshape_input_product_valid known
          by (auto simp add: Reshape_zeros_def)
        have sec: "Reshape_infer ctx =
            (if snd ?ip
             then if cpp_traps (fst ?ip) Q then Inl ArithmeticTrap
                  else if cpp_mod (fst ?ip) Q \<noteq> 0
                  then Inl (ShapeInferenceError
                              ''Dimension could not be inferred: incompatible shapes'')
                  else Inr (updOutput 0 (set_dim k (DimValue (int64 (cpp_div (fst ?ip) Q))))
                         (updOutput 0
                           (\<lambda>t. t\<lparr>shape := Some (map (Reshape_dim ts ds) [0..<?m])\<rparr>) ?ctxp))
             else Inr (updOutput 0
                         (\<lambda>t. t\<lparr>shape := Some (map (Reshape_dim ts ds) [0..<?m])\<rparr>) ?ctxp))"
          unfolding infer run
          using False
          by (simp add: second_def Reshape_state_def Some Qc shp sd split_beta Let_def)
        show ?thesis
        proof (cases known)
          case False
          have "result_shape 0 (Reshape_infer ctx) =
              Inr (Some (map (Reshape_dim ts ds) [0..<?m]))"
            unfolding sec using False valid by (simp add: result_shape_def sdo)
          moreover have "map (Reshape_dim ts ds) [0..<?m] =
              (map (Reshape_dim ts ds) [0..<?m])[k := DimUnset]"
          proof -
            have "map (Reshape_dim ts ds) [0..<?m] ! k = DimUnset"
              using k by (simp add: Reshape_dim_def)
            then show ?thesis by (metis list_update_id)
          qed
          moreover have okT: ok using A U ok False \<open>Q \<noteq> 0\<close> by blast
          ultimately show ?thesis
            using Reshape_final_dims[OF k U ge, of ds DimUnset] False by simp
        next
          case True
          then have v: "\<forall>i\<in>set [0..<length ds].
              has_dim_value (ds ! i)
              \<or> (i < length (Reshape_zeros ts ds ?m) \<and> Reshape_zeros ts ds ?m ! i)"
            using valid unfolding Reshape_input_product_valid by simp
          have "in_int64 (fst ?ip)"
            by (rule Reshape_input_product_in_range) (simp add: in_int64_def)
          then have "fst ?ip = int64 (fst ?ip)" by (simp add: int64_id)
          also have "\<dots> = int64 P"
            unfolding Reshape_input_product_value[OF v] P by simp
          also have "\<dots> = P"
            using Pnonneg range by (intro int64_id) (simp add: in_int64_def)
          finally have ip: "fst ?ip = P" .
          have mod: "cpp_mod P Q = P mod Q" and dv: "cpp_div P Q = P div Q"
            using Pnonneg Qpos by (simp_all add: cpp_mod_nonneg cpp_div_nonneg)
          have notrap: "\<not> cpp_traps P Q"
            using Qpos by (simp add: cpp_traps_def)
          have quot: "int64 (P div Q) = P div Q"
          proof (rule int64_id)
            have "0 \<le> P div Q" using Pnonneg Qpos by (simp add: pos_imp_zdiv_nonneg_iff)
            moreover have "P div Q \<le> P div 1" using Pnonneg Qpos by (intro zdiv_mono2) auto
            then have "P div Q \<le> P" by simp
            ultimately show "in_int64 (P div Q)" using range by (simp add: in_int64_def)
          qed
          show ?thesis
          proof (cases "Q dvd P")
            case dvd: True
            then have "P mod Q = 0" by simp
            then have "Reshape_infer ctx =
                Inr (updOutput 0 (set_dim k (DimValue (P div Q)))
                       (updOutput 0
                         (\<lambda>t. t\<lparr>shape := Some (map (Reshape_dim ts ds) [0..<?m])\<rparr>) ?ctxp))"
              unfolding sec using True valid notrap by (simp add: ip mod dv quot)
            then have "result_shape 0 (Reshape_infer ctx) =
                Inr (Some ((map (Reshape_dim ts ds) [0..<?m])[k := DimValue (P div Q)]))"
              by (simp add: result_shape_def updOutput_updOutput set_dim_def shape_dims_def sdo)
            moreover have okT: ok using A U ok dvd \<open>Q \<noteq> 0\<close> by blast
            ultimately show ?thesis
              using Reshape_final_dims[OF k U ge, of ds "DimValue (P div Q)"] True by simp
          next
            case ndvd: False
            then have "P mod Q \<noteq> 0" by (simp add: dvd_eq_mod_eq_0)
            then have "\<exists>msg. Reshape_infer ctx = Inl (ShapeInferenceError msg)"
              unfolding sec using True valid notrap by (simp add: ip mod)
            moreover have "\<not> ok" using ok ex True ndvd by blast
            ultimately show ?thesis by blast
          qed
        qed
      qed
    qed
  qed
qed

text \<open>
  The theorem at input shape \<open>(2, 3, 4)\<close> and target \<open>(-1, 4)\<close>, where the output is
  \<open>(6, 4)\<close>, and at input shape \<open>(2, 3)\<close> and target \<open>(2, 3, 0)\<close>, where the entry 0
  is at position 2, out of the bounds of the input shape, and the call fails.
\<close>

theorem Reshape_output_shape_witness:
  "result_shape 0 (Reshape_infer Reshape_example_ctx) = Inr (Some [DimValue 6, DimValue 4])
   \<and> (\<exists>msg. Reshape_infer Reshape_zero_out_of_bounds_ctx = Inl (ShapeInferenceError msg))"
proof
  show "result_shape 0 (Reshape_infer Reshape_example_ctx) = Inr (Some [DimValue 6, DimValue 4])"
    using Reshape_output_shape[of Reshape_example_ctx
        "\<lparr>data_type = Some INT64, raw_data = None, int64_data = [- 1, 4], int32_data = []\<rparr>"
        "[- 1, 4]" "[DimValue 2, DimValue 3, DimValue 4]" 4 24 True True]
    by (simp add: Reshape_example_ctx_def getInputData_def getInputType_def getOutputType_def
        fresh_slot_def upt_rec less_Suc_eq numeral_3_eq_3 numeral_2_eq_2)
next
  let ?c = Reshape_zero_out_of_bounds_ctx
  let ?ts = "[2, 3, 0::int]"
  let ?ds = "[DimValue 2, DimValue 3]"
  have arity: "inputTypes ?c \<noteq> []" "outputTypes ?c \<noteq> []"
    by (simp_all add: Reshape_zero_out_of_bounds_ctx_def)
  have tgt: "getInputData ?c 1 = Some (int64_tensor ?ts)"
    by (simp add: Reshape_zero_out_of_bounds_ctx_def getInputData_def)
  have ts: "?ts = (case raw_data (int64_tensor ?ts) of Some bytes \<Rightarrow> int64s_of_bytes bytes
      | None \<Rightarrow> int64_data (int64_tensor ?ts))"
    by (simp add: int64_tensor_def)
  have shp: "shape (getInputType ?c 0) = Some ?ds"
    by (simp add: Reshape_zero_out_of_bounds_ctx_def getInputType_def)
  have fresh: "shape (getOutputType ?c 0) = None"
    by (simp add: Reshape_zero_out_of_bounds_ctx_def getOutputType_def fresh_slot_def)
  have nonneg: "\<forall>j<length ?ds. 0 \<le> dim_value (?ds ! j)"
    by (simp add: All_less_Suc numeral_2_eq_2)
  have Q: "(6::int) = prod_list (map (\<lambda>i. if 0 < ?ts ! i then ?ts ! i
                else if ?ts ! i = 0 \<and> i < length ?ds \<and> has_dim_value (?ds ! i)
                then dim_value (?ds ! i) else 1)
              [0..<length ?ts])"
    by (simp add: upt_rec numeral_3_eq_3 numeral_2_eq_2)
  have P: "(6::int) = prod_list
      (map (\<lambda>j. if has_dim_value (?ds ! j) then dim_value (?ds ! j) else 1) [0..<length ?ds])"
    by (simp add: upt_rec numeral_3_eq_3 numeral_2_eq_2)
  have range: "(6::int) < 2 ^ 63" by simp
  have known: "True =
      (\<forall>j<length ?ds. has_dim_value (?ds ! j) \<or> (j < length ?ts \<and> ?ts ! j = 0))"
    by (simp add: All_less_Suc numeral_2_eq_2)
  have ok: "False = ((\<forall>i<length ?ts. - 1 \<le> ?ts ! i \<and> (?ts ! i = 0 \<longrightarrow> i < length ?ds))
        \<and> (\<forall>i<length ?ts. \<forall>j<length ?ts. ?ts ! i = - 1 \<and> ?ts ! j = - 1 \<longrightarrow> i = j)
        \<and> ((\<exists>i<length ?ts. ?ts ! i = - 1) \<longrightarrow> (6::int) \<noteq> 0 \<and> (True \<longrightarrow> (6::int) dvd 6)))"
    by (simp add: All_less_Suc Ex_less_Suc numeral_3_eq_3 numeral_2_eq_2)
  show "\<exists>msg. Reshape_infer ?c = Inl (ShapeInferenceError msg)"
    using Reshape_output_shape[OF arity tgt ts shp fresh nonneg Q P range range known ok]
    by blast
qed

lemmas Reshape_eval_simps =
  Reshape_infer_def Let_def ctx_simps upt_rec int64_tensor_def int64_def
  cpp_traps_def cpp_mod_def cpp_div_def

text \<open>
  C4 as stated fails: with input shape \<open>(2, 3, 4)\<close>, of 24 elements, and target
  \<open>(5, 5)\<close> every contributing dimension is known and 25 does not divide 24, yet the call
  succeeds with output shape \<open>(5, 5)\<close>: the products are only compared to resolve an entry
  \<open>-1\<close>.
\<close>

theorem Reshape_no_minus_one_counterexample:
  "result_shape 0 (Reshape_infer Reshape_no_minus_one_ctx) = Inr (Some [DimValue 5, DimValue 5])"
  by (simp add: Reshape_no_minus_one_ctx_def Reshape_eval_simps)

text \<open>
  A product of 0 is refused before any division: with input shape \<open>(0, 3)\<close> and target
  \<open>(0, -1)\<close> the product of the copied dimensions is 0, as is the element count, and the
  call fails.
\<close>

lemma Reshape_zero_product_fails:
  "Reshape_infer Reshape_zero_product_ctx =
     Inl (ShapeInferenceError ''Invalid Target shape product of 0'')"
  by (simp add: Reshape_zero_product_ctx_def Reshape_eval_simps)

section \<open>Properties of Slice\<close>

lemmas Slice_eval_simps =
  Slice_infer_def Let_def ctx_simps upt_rec int64_tensor_def get_initializer_data_def
  ParseData_int64_def Slice_optional_def Slice_copy_dim_def Slice_length_def clamp_def
  ceil_quotient_def double_of_int64_def double_quotient_def round_half_even_def
  double_ceil_def compute_bitlen int64_def

text \<open>
  C5, the code at the failing input: data shape \<open>(4, 4)\<close>, starts \<open>[1]\<close>, ends
  \<open>[2]\<close>, no axes and no steps input. The claim, like the documentation of the operator,
  has the axes default to \<open>0 .. rank - 1\<close>, here \<open>[0, 1]\<close>, which does not fit one
  start and one end: given as the axes input, \<open>[0, 1]\<close> makes the call fail. The code
  lets the default follow \<open>starts\<close>: it takes the axes \<open>[0]\<close>, slices axis 0 only and
  succeeds with output shape \<open>(1, 4)\<close>.
\<close>

theorem Slice_default_axes_follow_starts:
  "result_shape 0 (Slice_infer Slice_default_axes_ctx) = Inr (Some [DimValue 1, DimValue 4])
   \<and> Slice_infer Slice_explicit_axes_ctx =
       Inl (ShapeInferenceError ''Input axes has incorrect length'')"
  by (simp add: Slice_default_axes_ctx_def Slice_explicit_axes_ctx_def Slice_eval_simps)

text \<open>
  Two more inputs where the code and C5 part. With data shape \<open>(N)\<close>, starts \<open>[0]\<close>,
  ends \<open>[1]\<close>, axes \<open>[0]\<close> and steps \<open>[0]\<close> the call succeeds: the step is only
  looked at for an axis of known input length. With data shape \<open>(2^53 + 1)\<close>, starts
  \<open>[0]\<close>, ends \<open>[2^53 + 1]\<close> and step 1 the whole axis is sliced and
  \<open>ceil((end - start) / step)\<close> is \<open>2^53 + 1\<close>, but the double that the code converts
  \<open>end - start\<close> to is \<open>2^53\<close>, and that is the length it infers.
\<close>

lemma Slice_zero_step_unknown_length:
  "result_shape 0 (Slice_infer Slice_zero_step_ctx) = Inr (Some [DimParam ''N''])"
  by (simp add: Slice_zero_step_ctx_def Slice_eval_simps)

lemma Slice_wide_length:
  "result_shape 0 (Slice_infer Slice_wide_ctx) = Inr (Some [DimValue 9007199254740992])"
  by (simp add: Slice_wide_ctx_def Slice_eval_simps)

text \<open>The example of C5: the output shape is \<open>(1, 2)\<close>.\<close>

lemma Slice_example:
  "result_shape 0 (Slice_infer Slice_example_ctx) = Inr (Some [DimValue 1, DimValue 2])"
  by (simp add: Slice_example_ctx_def Slice_eval_simps)

subsection \<open>The loop over the axes\<close>

lemma Slice_axes_loop_append:
  "Slice_axes_loop ds st en ax sp (xs @ ys) s =
     (case Slice_axes_loop ds st en ax sp xs s of
        Inl e \<Rightarrow> Inl e | Inr s' \<Rightarrow> Slice_axes_loop ds st en ax sp ys s')"
proof (induction xs arbitrary: s)
  case Nil
  show ?case by simp
next
  case (Cons i rest)
  obtain ctx U where s: "s = (ctx, U)" by (cases s) auto
  show ?case
    unfolding s by (simp add: Cons.IH Let_def)
qed

lemma Slice_step:
  assumes out: "outputTypes ctx \<noteq> []" and ax: "in_int64 (ax ! k)" and n: "int (length ds) < 2 ^ 31"
  shows "(Slice_entry_ok ds ax sp k \<longrightarrow>
            Slice_axes_loop ds st en ax sp [k] (Slice_state ctx ds st en ax sp k) =
              Inr (Slice_state ctx ds st en ax sp (Suc k)))
       \<and> (\<not> Slice_entry_ok ds ax sp k \<longrightarrow>
            isl (Slice_axes_loop ds st en ax sp [k] (Slice_state ctx ds st en ax sp k)))"
proof -
  have wrap: "int64 (ax ! k + int (length ds)) = ax ! k + int (length ds)" if "ax ! k < 0"
    using ax n that by (intro int64_id) (simp add: in_int64_def)
  have axis: "(if ax ! k < 0 then int64 (ax ! k + int (length ds)) else ax ! k) =
      Slice_axis (length ds) ax k"
    using wrap by (simp add: Slice_axis_def)
  have upd: "updOutput 0 (set_dim j d)
        (updOutput 0 (\<lambda>t. t\<lparr>shape := Some (Slice_dims ds st en ax sp k)\<rparr>) ctx) =
      updOutput 0 (\<lambda>t. t\<lparr>shape := Some ((Slice_dims ds st en ax sp k)[j := d])\<rparr>) ctx" for j d
    by (simp add: updOutput_updOutput set_dim_def shape_dims_def)
  have ins: "insert (Slice_axis (length ds) ax k) (Slice_axis (length ds) ax ` {0..<k}) =
      Slice_axis (length ds) ax ` {0..<Suc k}"
    by (simp add: atLeast0_lessThan_Suc)
  show ?thesis
    unfolding Slice_state_def Slice_axes_loop.simps Let_def axis upd ins Slice_entry_ok_def
    by (auto simp add: Slice_dims.simps)
qed

lemma Slice_loop_prefix:
  assumes out: "outputTypes ctx \<noteq> []" and ax: "\<forall>k<m. in_int64 (ax ! k)"
    and n: "int (length ds) < 2 ^ 31"
  shows "((\<forall>k<m. Slice_entry_ok ds ax sp k) \<longrightarrow>
            Slice_axes_loop ds st en ax sp [0..<m] (Slice_state ctx ds st en ax sp 0) =
              Inr (Slice_state ctx ds st en ax sp m))
       \<and> (\<not> (\<forall>k<m. Slice_entry_ok ds ax sp k) \<longrightarrow>
            isl (Slice_axes_loop ds st en ax sp [0..<m] (Slice_state ctx ds st en ax sp 0)))"
  using ax
proof (induction m)
  case 0
  show ?case by simp
next
  case (Suc m)
  then have axm: "in_int64 (ax ! m)" and IH:
    "(\<forall>k<m. Slice_entry_ok ds ax sp k) \<longrightarrow>
       Slice_axes_loop ds st en ax sp [0..<m] (Slice_state ctx ds st en ax sp 0) =
         Inr (Slice_state ctx ds st en ax sp m)"
    "\<not> (\<forall>k<m. Slice_entry_ok ds ax sp k) \<longrightarrow>
       isl (Slice_axes_loop ds st en ax sp [0..<m] (Slice_state ctx ds st en ax sp 0))"
    by simp_all
  note step = Slice_step[OF out axm n, of sp st en]
  have app: "Slice_axes_loop ds st en ax sp [0..<Suc m] s =
      (case Slice_axes_loop ds st en ax sp [0..<m] s of Inl e \<Rightarrow> Inl e
       | Inr s' \<Rightarrow> Slice_axes_loop ds st en ax sp [m] s')" for s
    using Slice_axes_loop_append[of ds st en ax sp "[0..<m]" "[m]" s] by simp
  show ?case
  proof (cases "\<forall>k<m. Slice_entry_ok ds ax sp k")
    case False
    then have "isl (Slice_axes_loop ds st en ax sp [0..<m] (Slice_state ctx ds st en ax sp 0))"
      using IH(2) by blast
    then have "isl (Slice_axes_loop ds st en ax sp [0..<Suc m] (Slice_state ctx ds st en ax sp 0))"
      unfolding app
      by (cases "Slice_axes_loop ds st en ax sp [0..<m] (Slice_state ctx ds st en ax sp 0)")
        simp_all
    moreover have "\<not> (\<forall>k<Suc m. Slice_entry_ok ds ax sp k)"
      using False by (auto simp add: less_Suc_eq)
    ultimately show ?thesis by blast
  next
    case True
    then have pre: "Slice_axes_loop ds st en ax sp [0..<m] (Slice_state ctx ds st en ax sp 0) =
        Inr (Slice_state ctx ds st en ax sp m)"
      using IH(1) by blast
    show ?thesis
    proof (cases "Slice_entry_ok ds ax sp m")
      case ok: True
      have "Slice_axes_loop ds st en ax sp [0..<Suc m] (Slice_state ctx ds st en ax sp 0) =
          Inr (Slice_state ctx ds st en ax sp (Suc m))"
        unfolding app pre using step ok by simp
      moreover have "\<forall>k<Suc m. Slice_entry_ok ds ax sp k"
        using True ok by (auto simp add: less_Suc_eq)
      ultimately show ?thesis by blast
    next
      case bad: False
      have "isl (Slice_axes_loop ds st en ax sp [0..<Suc m] (Slice_state ctx ds st en ax sp 0))"
        unfolding app pre using step bad by simp
      moreover have "\<not> (\<forall>k<Suc m. Slice_entry_ok ds ax sp k)"
        using bad by auto
      ultimately show ?thesis by blast
    qed
  qed
qed

subsection \<open>The double arithmetic of the output length\<close>

text \<open>
  The rounded quotient is within half a unit of the last mantissa bit of the exact one.
  When \<open>end - start\<close> is at most \<open>2^53\<close> in absolute value this is too little to move
  the quotient across an integer: the ceiling the code computes is the ceiling of the exact
  quotient, whatever the step is (\<open>ceil_quotient_exact\<close>, for the result after the
  code has replaced a negative length by 0).
\<close>

lemma round_half_even_bounds:
  assumes "0 < d"
  shows "2 * (round_half_even n d * d) \<le> 2 * n + d" "2 * n \<le> 2 * (round_half_even n d * d) + d"
proof -
  define q where "q = n div d"
  define r where "r = n mod d"
  define t where "t = q * d"
  have n: "n = t + r" unfolding q_def r_def t_def by simp
  have r: "0 \<le> r" "r < d" using assms unfolding r_def by simp_all
  have "round_half_even n d = q \<and> 2 * r \<le> d \<or> round_half_even n d = q + 1 \<and> d \<le> 2 * r"
    unfolding round_half_even_def Let_def q_def[symmetric] r_def[symmetric] by auto
  then have "round_half_even n d * d = t \<and> 2 * r \<le> d
      \<or> round_half_even n d * d = t + d \<and> d \<le> 2 * r"
    unfolding t_def by (auto simp add: algebra_simps)
  then show "2 * (round_half_even n d * d) \<le> 2 * n + d"
    "2 * n \<le> 2 * (round_half_even n d * d) + d"
    using n r by auto
qed

lemma round_half_even_exact: "0 < d \<Longrightarrow> d dvd n \<Longrightarrow> round_half_even n d = n div d"
  by (auto simp add: round_half_even_def Let_def)

lemma ceil_div_unique:
  fixes a b n :: int
  assumes "0 < b" "(n - 1) * b < a" "a \<le> n * b"
  shows "- ((- a) div b) = n"
proof -
  have "(- a) div b = - n"
  proof (rule int_div_pos_eq[where r = "n * b - a"])
    show "- a = b * - n + (n * b - a)" by simp
    show "0 \<le> n * b - a" using assms by simp
    show "n * b - a < b" using assms by (simp add: algebra_simps)
  qed
  then show ?thesis by simp
qed

lemma ceil_div_bounds:
  fixes a b :: int
  assumes "0 < b"
  shows "(- ((- a) div b) - 1) * b < a" "a \<le> - ((- a) div b) * b"
proof -
  define t where "t = (- a) div b * b"
  have 1: "- a = t + (- a) mod b" unfolding t_def by simp
  have 2: "0 \<le> (- a) mod b" "(- a) mod b < b" using assms by simp_all
  have 3: "(- ((- a) div b) - 1) * b = - t - b" "- ((- a) div b) * b = - t"
    unfolding t_def by (simp_all add: algebra_simps)
  show "(- ((- a) div b) - 1) * b < a" unfolding 3 using 1 2 by linarith
  show "a \<le> - ((- a) div b) * b" unfolding 3 using 1 2 by linarith
qed

lemma pow_nat_powi: "(2::real) ^ nat k / 2 ^ nat (- k) = 2 powi k"
  by (cases "0 \<le> k") (simp_all add: power_int_def field_simps)

lemma bitlen_powi:
  assumes "0 < a"
  shows "2 powi (bitlen a - 1) \<le> real_of_int a" "real_of_int a < 2 powi (bitlen a)"
proof -
  have b: "2 ^ nat (bitlen a - 1) \<le> a" "a < 2 ^ nat (bitlen a)"
    using bitlen_bounds[OF assms] by auto
  have ge: "1 \<le> bitlen a" using assms by (simp add: bitlen_alt_def)
  have "real_of_int (2 ^ nat (bitlen a - 1)) \<le> real_of_int a" using b(1) by linarith
  then show "2 powi (bitlen a - 1) \<le> real_of_int a"
    using ge by (simp add: power_int_def)
  have "real_of_int a < real_of_int (2 ^ nat (bitlen a))" using b(2) by linarith
  then show "real_of_int a < 2 powi (bitlen a)"
    using ge by (simp add: power_int_def)
qed

lemma scaled_le_iff:
  fixes a b :: int
  assumes "0 < b"
  shows "c * (b * 2 ^ nat (- k)) \<le> a * 2 ^ nat k \<longleftrightarrow> real_of_int c \<le> real_of_int a / real_of_int b * 2 powi k"
    and "a * 2 ^ nat k < c * (b * 2 ^ nat (- k)) \<longleftrightarrow> real_of_int a / real_of_int b * 2 powi k < real_of_int c"
proof -
  have p: "(0::real) < 2 ^ nat (- k)" "(0::real) < of_int b" using assms by simp_all
  have "c * (b * 2 ^ nat (- k)) \<le> a * 2 ^ nat k \<longleftrightarrow>
      real_of_int (c * (b * 2 ^ nat (- k))) \<le> real_of_int (a * 2 ^ nat k)"
    by linarith
  also have "\<dots> \<longleftrightarrow> real_of_int c \<le> real_of_int a / real_of_int b * (2 ^ nat k / 2 ^ nat (- k))"
    using p by (simp add: field_simps)
  finally show "c * (b * 2 ^ nat (- k)) \<le> a * 2 ^ nat k \<longleftrightarrow> real_of_int c \<le> real_of_int a / real_of_int b * 2 powi k"
    unfolding pow_nat_powi .
  have "a * 2 ^ nat k < c * (b * 2 ^ nat (- k)) \<longleftrightarrow>
      real_of_int (a * 2 ^ nat k) < real_of_int (c * (b * 2 ^ nat (- k)))"
    by linarith
  also have "\<dots> \<longleftrightarrow> real_of_int a / real_of_int b * (2 ^ nat k / 2 ^ nat (- k)) < real_of_int c"
    using p by (simp add: field_simps)
  finally show "a * 2 ^ nat k < c * (b * 2 ^ nat (- k)) \<longleftrightarrow> real_of_int a / real_of_int b * 2 powi k < real_of_int c"
    unfolding pow_nat_powi .
qed

lemma double_quotient_spec:
  assumes a: "0 < a" and b: "0 < b"
  shows "\<exists>k. double_quotient a b =
            (round_half_even (a * 2 ^ nat k) (b * 2 ^ nat (- k)), - k)
          \<and> 2 ^ 52 * (b * 2 ^ nat (- k)) \<le> a * 2 ^ nat k
          \<and> a * 2 ^ nat k < 2 ^ 53 * (b * 2 ^ nat (- k))"
proof -
  define e0 where "e0 = bitlen a - bitlen b"
  define e where "e = (if b * 2 ^ nat e0 \<le> a * 2 ^ nat (- e0) then e0 else e0 - 1)"
  define k where "k = 52 - e"
  define q where "q = real_of_int a / real_of_int b"
  have dq: "double_quotient a b = (round_half_even (a * 2 ^ nat k) (b * 2 ^ nat (- k)), - k)"
    unfolding double_quotient_def Let_def k_def e_def e0_def by simp
  have rb: "0 < real_of_int b" and ra: "0 < real_of_int a" using a b by simp_all
  have up: "q < 2 powi (e0 + 1)"
  proof -
    have "real_of_int a < 2 powi (bitlen a)" using bitlen_powi[OF a] by simp
    also have "\<dots> = 2 powi (e0 + 1) * 2 powi (bitlen b - 1)"
      unfolding e0_def by (simp add: power_int_add[symmetric])
    also have "\<dots> \<le> 2 powi (e0 + 1) * real_of_int b"
      using bitlen_powi(1)[OF b] by (intro mult_left_mono) simp_all
    finally show ?thesis unfolding q_def using rb by (simp add: field_simps)
  qed
  have lo: "2 powi (e0 - 1) \<le> q"
  proof -
    have "2 powi (e0 - 1) * real_of_int b \<le> 2 powi (e0 - 1) * 2 powi (bitlen b)"
      using bitlen_powi(2)[OF b] by (intro mult_left_mono) simp_all
    also have "\<dots> = 2 powi (bitlen a - 1)"
      unfolding e0_def by (simp add: power_int_add[symmetric])
    also have "\<dots> \<le> real_of_int a" using bitlen_powi(1)[OF a] .
    finally show ?thesis unfolding q_def using rb by (simp add: field_simps)
  qed
  have cond: "b * 2 ^ nat e0 \<le> a * 2 ^ nat (- e0) \<longleftrightarrow> 2 powi e0 \<le> q"
  proof -
    have "b * 2 ^ nat e0 \<le> a * 2 ^ nat (- e0) \<longleftrightarrow> 1 * (b * 2 ^ nat (- (- e0))) \<le> a * 2 ^ nat (- e0)"
      by simp
    also have "\<dots> \<longleftrightarrow> real_of_int 1 \<le> q * 2 powi (- e0)"
      unfolding q_def by (rule scaled_le_iff(1)[OF b])
    also have "\<dots> \<longleftrightarrow> 2 powi e0 \<le> q"
      by (simp add: power_int_minus field_simps)
    finally show ?thesis .
  qed
  have eb: "2 powi e \<le> q \<and> q < 2 powi (e + 1)"
    unfolding e_def using cond lo up by auto
  have "real_of_int (2 ^ 52) \<le> q * 2 powi k"
  proof -
    have "(2::real) powi 52 = 2 powi e * 2 powi k"
      unfolding k_def by (simp add: power_int_add[symmetric])
    also have "\<dots> \<le> q * 2 powi k" using eb by (intro mult_right_mono) simp_all
    finally show ?thesis by simp
  qed
  then have 1: "2 ^ 52 * (b * 2 ^ nat (- k)) \<le> a * 2 ^ nat k"
    unfolding q_def scaled_le_iff(1)[OF b, symmetric] .
  have "q * 2 powi k < real_of_int (2 ^ 53)"
  proof -
    have "q * 2 powi k < 2 powi (e + 1) * 2 powi k"
      using eb by (intro mult_strict_right_mono) simp_all
    also have "\<dots> = 2 powi 53"
      unfolding k_def by (simp add: power_int_add[symmetric])
    finally show ?thesis by simp
  qed
  then have 2: "a * 2 ^ nat k < 2 ^ 53 * (b * 2 ^ nat (- k))"
    unfolding q_def scaled_le_iff(2)[OF b, symmetric] .
  show ?thesis using dq 1 2 by blast
qed

lemma double_quotient_mantissa:
  assumes a: "0 < a" and b: "0 < b" and dq: "double_quotient a b = (m, e)"
  shows "2 ^ 52 \<le> m" "m \<le> 2 ^ 53"
proof -
  obtain k where k: "double_quotient a b = (round_half_even (a * 2 ^ nat k) (b * 2 ^ nat (- k)), - k)"
    and lo: "2 ^ 52 * (b * 2 ^ nat (- k)) \<le> a * 2 ^ nat k"
    and hi: "a * 2 ^ nat k < 2 ^ 53 * (b * 2 ^ nat (- k))"
    using double_quotient_spec[OF a b] by blast
  define num where "num = a * 2 ^ nat k"
  define den where "den = b * 2 ^ nat (- k)"
  have den: "0 < den" unfolding den_def using b by simp
  have m: "m = round_half_even num den" using k dq unfolding num_def den_def by simp
  have r: "2 * (m * den) \<le> 2 * num + den" "2 * num \<le> 2 * (m * den) + den"
    unfolding m by (rule round_half_even_bounds[OF den])+
  have lo': "2 ^ 52 * den \<le> num" and hi': "num < 2 ^ 53 * den"
    using lo hi unfolding num_def den_def by simp_all
  show "2 ^ 52 \<le> m"
  proof (rule ccontr)
    assume "\<not> 2 ^ 52 \<le> m"
    then have "m + 1 \<le> 2 ^ 52" by simp
    then have "(m + 1) * den \<le> 2 ^ 52 * den" using den by (intro mult_right_mono) simp_all
    then have "m * den + den \<le> num" using lo' by (simp add: algebra_simps)
    then show False using r den by linarith
  qed
  show "m \<le> 2 ^ 53"
  proof (rule ccontr)
    assume "\<not> m \<le> 2 ^ 53"
    then have "2 ^ 53 + 1 \<le> m" by simp
    then have "(2 ^ 53 + 1) * den \<le> m * den" using den by (intro mult_right_mono) simp_all
    then have "num + den < m * den" using hi' by (simp add: algebra_simps)
    then show False using r den by linarith
  qed
qed

lemma double_ceil_exact:
  assumes a: "0 < a" "a \<le> 2 ^ 53" and b: "0 < b" and dq: "double_quotient a b = (m, e)"
  shows "double_ceil m e = - ((- a) div b)"
proof -
  obtain k where k: "double_quotient a b = (round_half_even (a * 2 ^ nat k) (b * 2 ^ nat (- k)), - k)"
    and lo: "2 ^ 52 * (b * 2 ^ nat (- k)) \<le> a * 2 ^ nat k"
    and hi: "a * 2 ^ nat k < 2 ^ 53 * (b * 2 ^ nat (- k))"
    using double_quotient_spec[OF a(1) b] by blast
  have e: "e = - k" and m: "m = round_half_even (a * 2 ^ nat k) (b * 2 ^ nat (- k))"
    using k dq by simp_all
  define n where "n = - ((- a) div b)"
  have n: "(n - 1) * b < a" "a \<le> n * b"
    unfolding n_def using ceil_div_bounds[OF b] by simp_all
  show ?thesis
  proof (cases "0 \<le> k")
    case True
    define t :: int where "t = 2 ^ nat k"
    have t: "0 < t" unfolding t_def by simp
    have den: "b * 2 ^ nat (- k) = b" using True by simp
    have m': "m = round_half_even (a * t) b" unfolding m t_def den ..
    have r: "2 * (m * b) \<le> 2 * (a * t) + b" "2 * (a * t) \<le> 2 * (m * b) + b"
      unfolding m' by (rule round_half_even_bounds[OF b])+
    have lo': "2 ^ 52 * b \<le> a * t" using lo unfolding den t_def .
    have "a * t \<le> 2 ^ 53 * t" using a t by (intro mult_right_mono) simp_all
    then have b2t: "b \<le> 2 * t" using lo' by simp
    have upper: "m \<le> n * t"
    proof (rule ccontr)
      assume "\<not> m \<le> n * t"
      then have "n * t + 1 \<le> m" by simp
      then have "(n * t + 1) * b \<le> m * b" using b by (intro mult_right_mono) simp_all
      moreover have "a * t \<le> n * b * t" using n(2) t by (intro mult_right_mono) simp_all
      ultimately have "a * t + b \<le> m * b" by (simp add: algebra_simps)
      then show False using r b by linarith
    qed
    have lower: "(n - 1) * t < m"
    proof (rule ccontr)
      assume "\<not> (n - 1) * t < m"
      then have "m \<le> (n - 1) * t" by simp
      then have "m * b \<le> (n - 1) * t * b" using b by (intro mult_right_mono) simp_all
      moreover have "(n - 1) * b + 1 \<le> a" using n(1) by simp
      then have "((n - 1) * b + 1) * t \<le> a * t" using t by (intro mult_right_mono) simp_all
      ultimately have 1: "m * b + t \<le> a * t" by (simp add: algebra_simps)
      then have bt: "b = 2 * t" and eq: "a * t = m * b + t" using r b2t by linarith+
      have "2 ^ 52 * b \<le> a * t" by (rule lo')
      moreover have "a * t \<le> 2 ^ 53 * t" using a t by (intro mult_right_mono) simp_all
      ultimately have "a * t = 2 ^ 52 * b" unfolding bt by simp
      then have "m = round_half_even (2 ^ 52 * b) b" unfolding m' by simp
      also have "\<dots> = 2 ^ 52 * b div b" using b by (intro round_half_even_exact) simp_all
      also have "\<dots> = 2 ^ 52" using b by simp
      finally have "m * b = a * t" using \<open>a * t = 2 ^ 52 * b\<close> by simp
      then show False using eq t by simp
    qed
    have "- ((- m) div t) = n"
      by (rule ceil_div_unique[OF t lower upper])
    moreover have "double_ceil m e = - ((- m) div t)"
    proof (cases "k = 0")
      case True
      then show ?thesis unfolding double_ceil_def e t_def by simp
    next
      case False
      then show ?thesis using True unfolding double_ceil_def e t_def by simp
    qed
    ultimately show ?thesis unfolding n_def by simp
  next
    case False
    then have kneg: "k < 0" by simp
    define u :: int where "u = 2 ^ nat (- k)"
    have "(2::int) ^ 1 \<le> 2 ^ nat (- k)"
      using kneg by (intro power_increasing) simp_all
    then have u2: "2 \<le> u" unfolding u_def by simp
    have num: "a * 2 ^ nat k = a" using kneg by simp
    have lo': "2 ^ 52 * (b * u) \<le> a" using lo unfolding num u_def .
    have "2 ^ 52 * (1 * 2) \<le> 2 ^ 52 * (b * u)"
      using b u2 by (intro mult_left_mono mult_mono) simp_all
    then have a53: "a = 2 ^ 53" using lo' a by simp
    have "b * u \<le> 2" using lo' a53 by simp
    moreover have "1 * 2 \<le> b * u" using b u2 by (intro mult_mono) simp_all
    ultimately have bu: "b * u = 2" by simp
    have "b = 1"
    proof (rule ccontr)
      assume "b \<noteq> 1"
      then have "2 \<le> b" using b by simp
      then have "2 * 2 \<le> b * u" using u2 by (intro mult_mono) simp_all
      then show False using bu by simp
    qed
    then have u: "u = 2" using bu by simp
    have "(2::int) ^ nat (- k) = 2 ^ 1" using u unfolding u_def by simp
    then have "nat (- k) = 1"
      using power_inject_exp[of "2::int" "nat (- k)" 1] by simp
    then have k1: "k = - 1" using kneg by simp
    have "m = round_half_even (2 ^ 53) 2"
      unfolding m num using a53 \<open>b = 1\<close> k1 by simp
    also have "\<dots> = 2 ^ 53 div 2" by (intro round_half_even_exact) simp_all
    finally have "m = 2 ^ 52" by simp
    then show ?thesis
      unfolding double_ceil_def e k1 a53 \<open>b = 1\<close> by simp
  qed
qed

lemma double_ceil_neg:
  assumes a: "0 < a" "a \<le> 2 ^ 53" and b: "0 < b" and dq: "double_quotient a b = (m, e)"
  shows "- (2 ^ 63) \<le> double_ceil (- m) e" "double_ceil (- m) e \<le> 0"
proof -
  obtain k where k: "double_quotient a b = (round_half_even (a * 2 ^ nat k) (b * 2 ^ nat (- k)), - k)"
    and lo: "2 ^ 52 * (b * 2 ^ nat (- k)) \<le> a * 2 ^ nat k"
    using double_quotient_spec[OF a(1) b] by blast
  have e: "e = - k" using k dq by simp
  have m: "2 ^ 52 \<le> m" "m \<le> 2 ^ 53" using double_quotient_mantissa[OF a(1) b dq] by simp_all
  show "double_ceil (- m) e \<le> 0"
  proof (cases "0 \<le> e")
    case True
    then show ?thesis unfolding double_ceil_def using m by (simp add: mult_le_0_iff)
  next
    case False
    have "0 \<le> m div 2 ^ nat (- e)" using m by (intro pos_imp_zdiv_nonneg_iff[THEN iffD2]) simp_all
    then show ?thesis unfolding double_ceil_def using False by simp
  qed
  show "- (2 ^ 63) \<le> double_ceil (- m) e"
  proof (cases "0 \<le> e")
    case True
    then have k0: "k \<le> 0" unfolding e by simp
    define u :: int where "u = 2 ^ nat (- k)"
    have u: "0 < u" unfolding u_def by simp
    have "2 ^ 52 * (b * u) \<le> a" using lo k0 unfolding u_def by simp
    moreover have "2 ^ 52 * (1 * u) \<le> 2 ^ 52 * (b * u)"
      using b u by (intro mult_left_mono mult_right_mono) simp_all
    ultimately have "u \<le> 2" using a by simp
    then have "m * u \<le> 2 ^ 53 * 2" using m u by (intro mult_mono) simp_all
    then show ?thesis unfolding double_ceil_def e using True e by (simp add: u_def)
  next
    case False
    have "m div 2 ^ nat (- e) \<le> m div 1" using m by (intro zdiv_mono2) simp_all
    then show ?thesis unfolding double_ceil_def using False m by simp
  qed
qed

lemma double_of_int64_exact: "\<bar>x\<bar> \<le> 2 ^ 53 \<Longrightarrow> double_of_int64 x = x"
  by (simp add: double_of_int64_def)

lemma round_half_even_ge_div: "0 < d \<Longrightarrow> n div d \<le> round_half_even n d"
  by (simp add: round_half_even_def Let_def)

lemma double_of_int64_large:
  assumes x: "2 ^ 53 < \<bar>x\<bar>"
  shows "\<exists>B. 2 ^ 53 \<le> B \<and> double_of_int64 x = sgn x * B"
proof -
  define L where "L = bitlen \<bar>x\<bar>"
  define u :: int where "u = 2 ^ nat (L - 53)"
  have pos: "0 < \<bar>x\<bar>" using x by simp
  have bb: "2 ^ nat (L - 1) \<le> \<bar>x\<bar>" "\<bar>x\<bar> < 2 ^ nat L"
    using bitlen_bounds[OF pos] unfolding L_def by simp_all
  have "(2::int) ^ 53 < 2 ^ nat L" using x bb(2) by linarith
  then have "53 < nat L" by (simp only: power_strict_increasing_iff) 
  then have L: "54 \<le> L" by simp
  have "(2::int) ^ 1 \<le> 2 ^ nat (L - 53)" using L by (intro power_increasing) simp_all
  then have u: "2 \<le> u" unfolding u_def by simp
  have "(2::int) ^ nat (L - 1) = 2 ^ (52 + nat (L - 53))"
    using L by (intro arg_cong[where f = "\<lambda>n. 2 ^ n"]) simp
  then have split: "(2::int) ^ nat (L - 1) = 2 ^ 52 * u"
    unfolding u_def by (simp add: power_add)
  have "2 ^ 52 * u div u \<le> \<bar>x\<bar> div u"
    using bb(1) u unfolding split by (intro zdiv_mono1) simp_all
  then have "2 ^ 52 \<le> \<bar>x\<bar> div u" using u by simp
  also have "\<dots> \<le> round_half_even \<bar>x\<bar> u" using u by (intro round_half_even_ge_div) simp
  finally have r: "2 ^ 52 \<le> round_half_even \<bar>x\<bar> u" .
  have "2 ^ 52 * 2 \<le> round_half_even \<bar>x\<bar> u * u" using r u by (intro mult_mono) simp_all
  moreover have "double_of_int64 x = sgn x * (round_half_even \<bar>x\<bar> u * u)"
    using x unfolding double_of_int64_def Let_def u_def L_def by simp
  ultimately show ?thesis by (intro exI[of _ "round_half_even \<bar>x\<bar> u * u"]) simp
qed

lemma ceil_quotient_pos:
  assumes a: "0 < a" "a \<le> 2 ^ 53" and s: "0 < s"
  shows "ceil_quotient a s = - ((- a) div s)" "ceil_quotient (- a) (- s) = - ((- a) div s)"
    "max 0 (ceil_quotient (- a) s) = 0" "max 0 (ceil_quotient a (- s)) = 0"
proof -
  obtain B where B: "0 < B" "double_of_int64 s = B" "double_of_int64 (- s) = - B"
    and n: "- ((- a) div B) = - ((- a) div s)"
  proof (cases "s \<le> 2 ^ 53")
    case True
    then have "double_of_int64 s = s" "double_of_int64 (- s) = - s"
      using s by (simp_all add: double_of_int64_exact)
    then show ?thesis using that[of s] s by simp
  next
    case False
    then have big: "2 ^ 53 < \<bar>s\<bar>" "2 ^ 53 < \<bar>- s\<bar>" using s by simp_all
    obtain B1 where B1: "2 ^ 53 \<le> B1" "double_of_int64 s = sgn s * B1"
      using double_of_int64_large[OF big(1)] by blast
    obtain B2 where B2: "2 ^ 53 \<le> B2" "double_of_int64 (- s) = sgn (- s) * B2"
      using double_of_int64_large[OF big(2)] by blast
    have "double_of_int64 (- s) = - double_of_int64 s"
      unfolding double_of_int64_def Let_def by simp
    then have B12: "B2 = B1" using B1(2) B2(2) s by simp
    have 1: "- ((- a) div B1) = 1"
      by (rule ceil_div_unique) (use a B1 in simp_all)
    have 2: "- ((- a) div s) = 1"
      by (rule ceil_div_unique) (use a s False in simp_all)
    show ?thesis
      using that[of B1] B1 B2 s 1 2 unfolding B12 by simp
  qed
  have da: "double_of_int64 a = a" "double_of_int64 (- a) = - a"
    using a by (simp_all add: double_of_int64_exact)
  obtain m e where dq: "double_quotient a B = (m, e)" by (cases "double_quotient a B") auto
  have ex: "double_ceil m e = - ((- a) div s)"
    using double_ceil_exact[OF a B(1) dq] n by simp
  have "0 < - ((- a) div s)"
  proof (rule ccontr)
    assume "\<not> 0 < - ((- a) div s)"
    then have "- ((- a) div s) * s \<le> 0" using s by (intro mult_nonpos_nonneg) simp_all
    then show False using ceil_div_bounds(2)[OF s, of a] a by linarith
  qed
  moreover have "- ((- a) div s) \<le> a"
  proof -
    have "(- a) div 1 \<le> (- a) div s" using a s by (intro zdiv_mono2_neg) simp_all
    then show ?thesis by simp
  qed
  ultimately have rng: "- (2 ^ 63) \<le> - ((- a) div s)" "- ((- a) div s) < 2 ^ 63"
    using a by simp_all
  have ng: "- (2 ^ 63) \<le> double_ceil (- m) e" "double_ceil (- m) e \<le> 0"
    using double_ceil_neg[OF a B(1) dq] by simp_all
  show "ceil_quotient a s = - ((- a) div s)"
    unfolding ceil_quotient_def Let_def da B using a B(1) dq ex rng
    by (simp add: int64_id in_int64_def)
  show "ceil_quotient (- a) (- s) = - ((- a) div s)"
    unfolding ceil_quotient_def Let_def da B using a B(1) dq ex rng
    by (simp add: int64_id in_int64_def)
  show "max 0 (ceil_quotient (- a) s) = 0"
    unfolding ceil_quotient_def Let_def da B using a B(1) dq ng
    by (simp add: int64_id in_int64_def)
  show "max 0 (ceil_quotient a (- s)) = 0"
    unfolding ceil_quotient_def Let_def da B using a B(1) dq ng
    by (simp add: int64_id in_int64_def)
qed

lemma ceil_quotient_exact:
  assumes x: "\<bar>x\<bar> \<le> 2 ^ 53" and step: "step \<noteq> 0"
  shows "max 0 (ceil_quotient x step) = max 0 (- ((- x) div step))"
proof -
  consider (zero) "x = 0" | (pp) "0 < x" "0 < step" | (nn) "x < 0" "step < 0"
    | (pn) "0 < x" "step < 0" | (np) "x < 0" "0 < step"
    using step by linarith
  then show ?thesis
  proof cases
    case zero
    then show ?thesis by (simp add: ceil_quotient_def double_of_int64_def)
  next
    case pp
    then show ?thesis using ceil_quotient_pos(1)[of x step] x by simp
  next
    case nn
    then show ?thesis
      using ceil_quotient_pos(2)[of "- x" "- step"] x by (simp add: div_minus_right)
  next
    case pn
    have "0 \<le> x div (- step)" using pn by (intro pos_imp_zdiv_nonneg_iff[THEN iffD2]) simp_all
    then have "- ((- x) div step) \<le> 0" by (simp add: div_minus_right)
    then show ?thesis using ceil_quotient_pos(4)[of x "- step"] x pn by simp
  next
    case np
    have "0 \<le> (- x) div step" using np by (intro pos_imp_zdiv_nonneg_iff[THEN iffD2]) simp_all
    then show ?thesis using ceil_quotient_pos(3)[of "- x" step] x np by simp
  qed
qed

lemma ceil_quotient_ceiling:
  assumes "\<bar>x\<bar> \<le> 2 ^ 53" and "step \<noteq> 0"
  shows "max 0 (ceil_quotient x step) = max 0 \<lceil>real_of_int x / real_of_int step\<rceil>"
proof -
  have "\<lceil>real_of_int x / real_of_int step\<rceil> = - \<lfloor>real_of_int (- x) / real_of_int step\<rfloor>"
    by (simp add: ceiling_def)
  also have "\<dots> = - ((- x) div step)"
    by (simp only: floor_divide_of_int_eq)
  finally show ?thesis using ceil_quotient_exact[OF assms] by simp
qed

subsection \<open>The output shape in general\<close>

lemma clamp_bounds: "min lo hi \<le> clamp v lo hi \<and> clamp v lo hi \<le> max lo hi"
  by (simp add: clamp_def)

lemma Slice_length_exact:
  assumes L: "0 \<le> L" "L \<le> 2 ^ 53" and s0: "in_int64 s0" and e0: "in_int64 e0"
    and step: "step \<noteq> 0"
  shows "Slice_length L s0 e0 step =
     (let s1 = (if s0 < 0 then s0 + L else s0);
          s = (if step < 0 then clamp s1 0 (L - 1) else clamp s1 0 L);
          e1 = (if e0 < 0 then e0 + L else e0);
          e = (if step < 0 then clamp e1 (- 1) L else clamp e1 0 L)
      in max 0 \<lceil>real_of_int (e - s) / real_of_int step\<rceil>)"
proof -
  have w1: "int64 (s0 + L) = s0 + L" if "s0 < 0"
    using that L s0 by (intro int64_id) (simp add: in_int64_def)
  have w2: "int64 (e0 + L) = e0 + L" if "e0 < 0"
    using that L e0 by (intro int64_id) (simp add: in_int64_def)
  have w3: "int64 (L - 1) = L - 1"
    using L by (intro int64_id) (simp add: in_int64_def)
  define s1 where "s1 = (if s0 < 0 then s0 + L else s0)"
  define s where "s = (if step < 0 then clamp s1 0 (L - 1) else clamp s1 0 L)"
  define e1 where "e1 = (if e0 < 0 then e0 + L else e0)"
  define e where "e = (if step < 0 then clamp e1 (- 1) L else clamp e1 0 L)"
  have diff: "\<bar>e - s\<bar> \<le> 2 ^ 53"
  proof (cases "step < 0")
    case True
    have "s = clamp s1 0 (L - 1)" "e = clamp e1 (- 1) L" using True unfolding s_def e_def by simp_all
    then have b: "min 0 (L - 1) \<le> s \<and> s \<le> max 0 (L - 1)" "- 1 \<le> e \<and> e \<le> L"
      using clamp_bounds[of 0 "L - 1" s1] clamp_bounds[of "- 1" L e1] L by auto
    show ?thesis
    proof (cases "L = 0")
      case True
      then have "- 1 \<le> e - s" "e - s \<le> 1" using b by auto
      then show ?thesis by (simp add: abs_le_iff)
    next
      case False
      then have "0 \<le> s \<and> s \<le> L - 1" using b L by simp
      then have "- L \<le> e - s" "e - s \<le> L" using b by auto
      then show ?thesis using L by (simp add: abs_le_iff)
    qed
  next
    case False
    have "s = clamp s1 0 L" "e = clamp e1 0 L" using False unfolding s_def e_def by simp_all
    then have "0 \<le> s \<and> s \<le> L" "0 \<le> e \<and> e \<le> L"
      using clamp_bounds[of 0 L s1] clamp_bounds[of 0 L e1] L by auto
    then have "- L \<le> e - s" "e - s \<le> L" by auto
    then show ?thesis using L by (simp add: abs_le_iff)
  qed
  then have w4: "int64 (e - s) = e - s"
    by (intro int64_id) (simp add: in_int64_def abs_le_iff)
  have "Slice_length L s0 e0 step =
      (if ceil_quotient (int64 (e - s)) step < 0 then 0 else ceil_quotient (int64 (e - s)) step)"
    unfolding Slice_length_def Let_def e_def s_def e1_def s1_def
    using w1 w2 w3 by simp
  also have "\<dots> = max 0 (ceil_quotient (e - s) step)"
    unfolding w4 by (simp add: max_def)
  also have "\<dots> = max 0 \<lceil>real_of_int (e - s) / real_of_int step\<rceil>"
    by (rule ceil_quotient_ceiling[OF diff step])
  finally show ?thesis
    unfolding Let_def e_def s_def e1_def s1_def .
qed

lemma Slice_dims_length: "length (Slice_dims ds st en ax sp k) = length ds"
  by (induction k) simp_all

lemma Slice_dims_untouched:
  "(\<forall>k'<k. nat (Slice_axis (length ds) ax k') \<noteq> j) \<Longrightarrow> Slice_dims ds st en ax sp k ! j = ds ! j"
  by (induction k) (simp_all add: less_Suc_eq)

lemma Slice_dims_sliced:
  assumes k: "k < K"
    and inj: "\<forall>k'<K. k' \<noteq> k \<longrightarrow> nat (Slice_axis (length ds) ax k') \<noteq> nat (Slice_axis (length ds) ax k)"
    and rng: "nat (Slice_axis (length ds) ax k) < length ds"
  shows "Slice_dims ds st en ax sp K ! nat (Slice_axis (length ds) ax k) =
     (if has_dim_value (ds ! nat (Slice_axis (length ds) ax k))
      then DimValue (Slice_length (dim_value (ds ! nat (Slice_axis (length ds) ax k)))
                       (st ! k) (en ! k) (sp ! k))
      else ds ! nat (Slice_axis (length ds) ax k))"
  using k inj
proof (induction K)
  case 0
  then show ?case by simp
next
  case (Suc K)
  show ?case
  proof (cases "k = K")
    case True
    have "\<forall>k'<K. nat (Slice_axis (length ds) ax k') \<noteq> nat (Slice_axis (length ds) ax k)"
      using Suc.prems True by auto
    then have "Slice_dims ds st en ax sp K ! nat (Slice_axis (length ds) ax k) =
        ds ! nat (Slice_axis (length ds) ax k)"
      by (rule Slice_dims_untouched)
    then show ?thesis
      using True rng by (simp add: Slice_dims_length)
  next
    case False
    then have kK: "k < K" using Suc.prems by simp
    have ne: "nat (Slice_axis (length ds) ax K) \<noteq> nat (Slice_axis (length ds) ax k)"
      using Suc.prems False by auto
    have "Slice_dims ds st en ax sp K ! nat (Slice_axis (length ds) ax k) =
        (if has_dim_value (ds ! nat (Slice_axis (length ds) ax k))
         then DimValue (Slice_length (dim_value (ds ! nat (Slice_axis (length ds) ax k)))
                          (st ! k) (en ! k) (sp ! k))
         else ds ! nat (Slice_axis (length ds) ax k))"
      using Suc.prems kK by (intro Suc.IH) auto
    then show ?thesis
      using ne by simp
  qed
qed

lemma Slice_copy_dim_id: "Slice_copy_dim d = d"
  by (cases d) (simp_all add: Slice_copy_dim_def)

lemma Slice_rank_loop_foldl:
  "Slice_rank_loop ds ixs ctx =
     foldl (\<lambda>c i. updOutput 0 (add_dim (Slice_copy_dim (ds ! i))) c) ctx ixs"
  by (induction ixs arbitrary: ctx) simp_all

lemma Slice_rank_loop_fresh:
  assumes "outputTypes ctx \<noteq> []" "shape (getOutputType ctx 0) = None" "ds \<noteq> []"
  shows "Slice_rank_loop ds [0..<length ds] ctx = updOutput 0 (\<lambda>t. t\<lparr>shape := Some ds\<rparr>) ctx"
proof -
  have "map (\<lambda>i. Slice_copy_dim (ds ! i)) [0..<length ds] = ds"
    by (simp add: Slice_copy_dim_id map_nth)
  then show ?thesis
    unfolding Slice_rank_loop_foldl add_dims_foldl
    using assms by (simp add: updOutput_def shape_dims_def getOutputType_def)
qed

lemma Slice_axes_loop_rank0:
  "0 < m \<Longrightarrow> isl (Slice_axes_loop [] st en ax sp [0..<m] s)"
  by (cases s) (auto simp add: upt_conv_Cons Let_def)

lemma Slice_entries_ok_iff:
  "(\<forall>k<m. Slice_entry_ok ds ax sp k) \<longleftrightarrow>
     (\<forall>k<m. 0 \<le> Slice_axis (length ds) ax k \<and> Slice_axis (length ds) ax k < int (length ds))
     \<and> (\<forall>k<m. \<forall>k'<m. Slice_axis (length ds) ax k = Slice_axis (length ds) ax k' \<longrightarrow> k = k')
     \<and> (\<forall>k<m. has_dim_value (ds ! nat (Slice_axis (length ds) ax k)) \<longrightarrow> sp ! k \<noteq> 0)"
  (is "?L \<longleftrightarrow> ?A \<and> ?U \<and> ?S")
proof
  assume L: ?L
  have A: ?A and S: ?S using L by (auto simp add: Slice_entry_ok_def)
  have notin: "\<forall>k<m. \<forall>k'<k. Slice_axis (length ds) ax k' \<noteq> Slice_axis (length ds) ax k"
  proof (intro allI impI)
    fix k k' assume k: "k < m" and k': "k' < k"
    have "Slice_axis (length ds) ax k' \<in> Slice_axis (length ds) ax ` {0..<k}"
      using k' by simp
    moreover have "Slice_axis (length ds) ax k \<notin> Slice_axis (length ds) ax ` {0..<k}"
      using L k by (simp add: Slice_entry_ok_def)
    ultimately show "Slice_axis (length ds) ax k' \<noteq> Slice_axis (length ds) ax k"
      by metis
  qed
  have U: ?U
  proof (intro allI impI)
    fix k k' assume k: "k < m" and k': "k' < m"
      and e: "Slice_axis (length ds) ax k = Slice_axis (length ds) ax k'"
    show "k = k'"
    proof (rule ccontr)
      assume "k \<noteq> k'"
      then consider "k < k'" | "k' < k" by linarith
      then show False
      proof cases
        case 1
        then show False using notin k' e by metis
      next
        case 2
        then show False using notin k e by metis
      qed
    qed
  qed
  show "?A \<and> ?U \<and> ?S" using A U S by blast
next
  assume R: "?A \<and> ?U \<and> ?S"
  show ?L
  proof (intro allI impI)
    fix k assume k: "k < m"
    have "Slice_axis (length ds) ax k \<notin> Slice_axis (length ds) ax ` {0..<k}"
    proof
      assume "Slice_axis (length ds) ax k \<in> Slice_axis (length ds) ax ` {0..<k}"
      then obtain k' where "k' < k" "Slice_axis (length ds) ax k = Slice_axis (length ds) ax k'"
        by auto
      then show False using R k by (metis less_irrefl less_trans)
    qed
    then show "Slice_entry_ok ds ax sp k"
      using R k by (auto simp add: Slice_entry_ok_def)
  qed
qed

lemma get_initializer_data_has_type:
  "get_initializer_data t = Inr vs \<Longrightarrow> data_type t \<noteq> None"
  by (auto simp add: get_initializer_data_def split: if_splits)

lemma Slice_optional_present:
  "get_initializer_data t = Inr vs \<Longrightarrow> length vs = n \<Longrightarrow> Slice_optional (Some t) dflt n msg = Inr vs"
  by (simp add: Slice_optional_def)

lemma Slice_optional_absent: "Slice_optional None dflt n msg = Inr dflt"
  by (simp add: Slice_optional_def)

lemma Slice_infer_unfold:
  assumes arity: "getNumInputs ctx = 3 \<or> getNumInputs ctx = 4 \<or> getNumInputs ctx = 5"
    and shp: "shape (getInputType ctx 0) = Some ds"
    and st: "getInputData ctx 1 = Some tS" "get_initializer_data tS = Inr starts"
    and en: "getInputData ctx 2 = Some tE" "get_initializer_data tE = Inr ends"
    and len: "length ends = length starts"
    and ax: "if hasInputShape ctx 3
             then (\<exists>t. getInputData ctx 3 = Some t \<and> get_initializer_data t = Inr axes)
                  \<and> length axes = length starts
             else axes = map int [0..<length starts]"
    and sp: "if hasInputShape ctx 4
             then (\<exists>t. getInputData ctx 4 = Some t \<and> get_initializer_data t = Inr steps)
                  \<and> length steps = length starts
             else steps = replicate (length starts) 1"
  shows "Slice_infer ctx =
     (case Slice_axes_loop ds starts ends axes steps [0..<length starts]
             (Slice_rank_loop ds [0..<length ds] (propagateElemTypeFromInputToOutput ctx 0 0), {}) of
        Inl e \<Rightarrow> Inl e
      | Inr st \<Rightarrow> Inr (fst st))"
proof -
  let ?ctxp = "propagateElemTypeFromInputToOutput ctx 0 0"
  have n0: "\<not> (getNumInputs ctx \<noteq> 3 \<and> getNumInputs ctx \<noteq> 4 \<and> getNumInputs ctx \<noteq> 5)"
    using arity by auto
  have has: "hasNInputShapes ?ctxp 1"
    using arity shp
    by (auto simp add: hasNInputShapes_def propagateElemType_queries hasInputShape_def)
  have sd: "shape_dims (getInputType ctx 0) = ds"
    using shp by (simp add: shape_dims_def)
  have dt: "data_type tS \<noteq> None"
    using st(2) by (rule get_initializer_data_has_type)
  have lax: "length axes = length starts"
    using ax by (auto split: if_splits)
  have axo: "Slice_optional (if hasInputShape ctx 3 then getInputData ctx 3 else None)
      (map int [0..<length starts]) (length starts) ''Input axes has incorrect length'' = Inr axes"
    using ax by (auto simp add: Slice_optional_present Slice_optional_absent split: if_splits)
  have spo: "Slice_optional (if hasInputShape ctx 4 then getInputData ctx 4 else None)
      (replicate (length starts) 1) (length starts) ''Input steps has incorrect length'' = Inr steps"
    using sp lax by (auto simp add: Slice_optional_present Slice_optional_absent split: if_splits)
  have g3: "\<not> (hasInputShape ctx 3 \<and> getInputData ctx 3 = None)"
    using ax by (auto split: if_splits)
  have g4: "\<not> (hasInputShape ctx 4 \<and> getInputData ctx 4 = None)"
    using sp by (auto split: if_splits)
  have c1: "(getNumInputs ctx \<noteq> 3 \<and> getNumInputs ctx \<noteq> 4 \<and> getNumInputs ctx \<noteq> 5) = False"
    using n0 by simp
  have c2: "hasNInputShapes ?ctxp 1 = True"
    using has by simp
  have c3: "(Some tS = None \<or> Some tE = None
      \<or> (hasInputShape ctx 3 \<and> getInputData ctx 3 = None)
      \<or> (hasInputShape ctx 4 \<and> getInputData ctx 4 = None)) = False"
    using g3 g4 by simp
  have c4: "(data_type (the (Some tS)) = None) = False"
    using dt by simp
  have c5: "get_initializer_data (the (Some tS)) = Inr starts"
    "get_initializer_data (the (Some tE)) = Inr ends"
    using st(2) en(2) by simp_all
  have c6: "(length starts \<noteq> length ends) = False"
    using len by simp
  show ?thesis
    unfolding Slice_infer_def Let_def propagateElemType_queries st(1) en(1) c1 c2 c3 c4 c5 c6
      sd axo spo lax if_False if_True not_True_eq_False sum.case
    by (simp add: split_beta cong: sum.case_cong)
qed

text \<open>
  What the code does in general, for Slice on a data input of known shape \<open>ds\<close> with
  constant starts and ends of equal length, a fresh output slot, values that fit an
  \<^verbatim>\<open>int64_t\<close> and input lengths between 0 and \<open>2^53\<close>, where the double
  arithmetic of the code is exact. \<open>axes\<close> and \<open>steps\<close> are the constants of inputs 3
  and 4 where these inputs are there with a shape (\<open>hasInputShape\<close>), and are
  \<open>0 .. len(starts) - 1\<close> and all 1 otherwise; \<open>axis k\<close> is \<open>axes[k]\<close> with the rank
  added when negative. The call succeeds exactly when \<open>ok\<close> holds: every axis is in
  \<open>[0, rank)\<close>, no axis occurs twice, and no axis of known input length has step 0;
  otherwise it fails. On success the output has the rank of the input (an input of rank 0
  leaves the output without a shape), an axis that is not sliced and a sliced axis of
  unknown input length keep the input dimension, and a sliced axis of known input length
  \<open>L\<close> gets \<open>max(0, ceil((end - start) / step))\<close>, where a negative start or end has
  \<open>L\<close> added, start is clamped to \<open>[0, L]\<close> (step positive) or \<open>[0, L - 1]\<close> (step
  negative), and end to \<open>[0, L]\<close> or \<open>[-1, L]\<close>.
\<close>

lemma Slice_output_shape:
  assumes arity: "getNumInputs ctx = 3 \<or> getNumInputs ctx = 4 \<or> getNumInputs ctx = 5"
      "outputTypes ctx \<noteq> []"
    and shp: "shape (getInputType ctx 0) = Some ds"
    and fresh: "shape (getOutputType ctx 0) = None"
    and st: "getInputData ctx 1 = Some tS" "get_initializer_data tS = Inr starts"
    and en: "getInputData ctx 2 = Some tE" "get_initializer_data tE = Inr ends"
    and len: "length ends = length starts"
    and ax: "if hasInputShape ctx 3
             then (\<exists>t. getInputData ctx 3 = Some t \<and> get_initializer_data t = Inr axes)
                  \<and> length axes = length starts
             else axes = map int [0..<length starts]"
    and sp: "if hasInputShape ctx 4
             then (\<exists>t. getInputData ctx 4 = Some t \<and> get_initializer_data t = Inr steps)
                  \<and> length steps = length starts
             else steps = replicate (length starts) 1"
    and range: "\<forall>k<length starts.
        in_int64 (starts ! k) \<and> in_int64 (ends ! k) \<and> in_int64 (axes ! k)"
    and dims: "\<forall>j<length ds. 0 \<le> dim_value (ds ! j) \<and> dim_value (ds ! j) \<le> 2 ^ 53"
      "int (length ds) < 2 ^ 31"
    and axis: "\<forall>k. axis k = (if axes ! k < 0 then axes ! k + int (length ds) else axes ! k)"
    and ok: "ok = ((\<forall>k<length starts. 0 \<le> axis k \<and> axis k < int (length ds))
        \<and> (\<forall>k<length starts. \<forall>k'<length starts. axis k = axis k' \<longrightarrow> k = k')
        \<and> (\<forall>k<length starts. has_dim_value (ds ! nat (axis k)) \<longrightarrow> steps ! k \<noteq> 0))"
  shows "(ok \<longrightarrow> (\<exists>out.
            result_shape 0 (Slice_infer ctx) = Inr (if ds = [] then None else Some out)
            \<and> length out = length ds
            \<and> (\<forall>j<length ds. (\<forall>k<length starts. axis k \<noteq> int j) \<longrightarrow> out ! j = ds ! j)
            \<and> (\<forall>k<length starts.
                  out ! nat (axis k) =
                    (case ds ! nat (axis k) of
                       DimValue L \<Rightarrow>
                         (let step = steps ! k;
                              s1 = (if starts ! k < 0 then starts ! k + L else starts ! k);
                              s = (if step < 0 then clamp s1 0 (L - 1) else clamp s1 0 L);
                              e1 = (if ends ! k < 0 then ends ! k + L else ends ! k);
                              e = (if step < 0 then clamp e1 (- 1) L else clamp e1 0 L)
                          in DimValue (max 0 \<lceil>real_of_int (e - s) / real_of_int step\<rceil>))
                     | d \<Rightarrow> d))))
       \<and> (\<not> ok \<longrightarrow> isl (Slice_infer ctx))"
proof -
  let ?ctxp = "propagateElemTypeFromInputToOutput ctx 0 0"
  let ?m = "length starts"
  let ?n = "length ds"
  have axis_eq: "axis = Slice_axis ?n axes"
    using axis by (auto simp add: Slice_axis_def fun_eq_iff)
  have infer: "Slice_infer ctx =
      (case Slice_axes_loop ds starts ends axes steps [0..<?m]
              (Slice_rank_loop ds [0..<?n] ?ctxp, {}) of
         Inl e \<Rightarrow> Inl e | Inr st \<Rightarrow> Inr (fst st))"
    by (rule Slice_infer_unfold[OF arity(1) shp st en len ax sp])
  have outp: "outputTypes ?ctxp \<noteq> []"
    using arity(2) by (simp add: propagateElemTypeFromInputToOutput_def updOutput_def)
  have freshp: "shape (getOutputType ?ctxp 0) = None"
    using arity(2) fresh
    by (simp add: propagateElemTypeFromInputToOutput_def updOutput_def getOutputType_def)
  have ok_iff: "ok \<longleftrightarrow> (\<forall>k<?m. Slice_entry_ok ds axes steps k)"
    unfolding ok axis_eq Slice_entries_ok_iff ..
  show ?thesis
  proof (cases "ds = []")
    case True
    show ?thesis
    proof (cases "?m = 0")
      case m0: True
      have "Slice_infer ctx = Inr ?ctxp"
        unfolding infer using True m0 by simp
      then have "result_shape 0 (Slice_infer ctx) = Inr None"
        using freshp by (simp add: result_shape_def)
      moreover have okT: ok using ok m0 by simp
      ultimately show ?thesis
        using True m0 by (intro conjI impI exI[of _ "[]"]) simp_all
    next
      case False
      then have "isl (Slice_axes_loop [] starts ends axes steps [0..<?m]
          (Slice_rank_loop [] [0..<0] ?ctxp, {}))"
        by (intro Slice_axes_loop_rank0) simp
      then have "isl (Slice_infer ctx)"
        unfolding infer using True
        by (cases "Slice_axes_loop [] starts ends axes steps [0..<?m]
              (Slice_rank_loop [] [0..<0] ?ctxp, {})") simp_all
      moreover have "\<not> ok"
        using ok False True by auto
      ultimately show ?thesis by blast
    qed
  next
    case False
    have init: "(Slice_rank_loop ds [0..<?n] ?ctxp, {}) =
        Slice_state ?ctxp ds starts ends axes steps 0"
      using Slice_rank_loop_fresh[OF outp freshp False] by (simp add: Slice_state_def)
    have axr: "\<forall>k<?m. in_int64 (axes ! k)" using range by blast
    note loop = Slice_loop_prefix[OF outp axr dims(2), of steps starts ends]
    show ?thesis
    proof (cases ok)
      case bad: False
      then have "isl (Slice_axes_loop ds starts ends axes steps [0..<?m]
          (Slice_state ?ctxp ds starts ends axes steps 0))"
        using loop ok_iff by blast
      then have "isl (Slice_infer ctx)"
        unfolding infer init
        by (cases "Slice_axes_loop ds starts ends axes steps [0..<?m]
              (Slice_state ?ctxp ds starts ends axes steps 0)") simp_all
      then show ?thesis using bad by blast
    next
      case good: True
      then have run: "Slice_axes_loop ds starts ends axes steps [0..<?m]
          (Slice_state ?ctxp ds starts ends axes steps 0) =
          Inr (Slice_state ?ctxp ds starts ends axes steps ?m)"
        using loop ok_iff by blast
      let ?out = "Slice_dims ds starts ends axes steps ?m"
      have res: "result_shape 0 (Slice_infer ctx) = Inr (Some ?out)"
        unfolding infer init run using outp
        by (simp add: Slice_state_def result_shape_def updOutput_def getOutputType_def)
      have A: "\<forall>k<?m. 0 \<le> axis k \<and> axis k < int ?n"
        and U: "\<forall>k<?m. \<forall>k'<?m. axis k = axis k' \<longrightarrow> k = k'"
        using good ok by blast+
      have untouched: "\<forall>j<?n. (\<forall>k<?m. axis k \<noteq> int j) \<longrightarrow> ?out ! j = ds ! j"
      proof (intro allI impI)
        fix j assume j: "j < ?n" and none: "\<forall>k<?m. axis k \<noteq> int j"
        have "\<forall>k'<?m. nat (Slice_axis ?n axes k') \<noteq> j"
        proof (intro allI impI)
          fix k' assume k': "k' < ?m"
          then have "0 \<le> axis k'" "axis k' \<noteq> int j" using A none by auto
          then show "nat (Slice_axis ?n axes k') \<noteq> j"
            unfolding axis_eq by auto
        qed
        then show "?out ! j = ds ! j" by (rule Slice_dims_untouched)
      qed
      have sliced: "\<forall>k<?m. ?out ! nat (axis k) =
          (case ds ! nat (axis k) of
             DimValue L \<Rightarrow>
               (let step = steps ! k;
                    s1 = (if starts ! k < 0 then starts ! k + L else starts ! k);
                    s = (if step < 0 then clamp s1 0 (L - 1) else clamp s1 0 L);
                    e1 = (if ends ! k < 0 then ends ! k + L else ends ! k);
                    e = (if step < 0 then clamp e1 (- 1) L else clamp e1 0 L)
                in DimValue (max 0 \<lceil>real_of_int (e - s) / real_of_int step\<rceil>))
           | d \<Rightarrow> d)"
      proof (intro allI impI)
        fix k assume k: "k < ?m"
        let ?j = "nat (axis k)"
        have j: "?j < ?n" using A k by auto
        have inj: "\<forall>k'<?m. k' \<noteq> k \<longrightarrow>
            nat (Slice_axis ?n axes k') \<noteq> nat (Slice_axis ?n axes k)"
        proof (intro allI impI)
          fix k' assume k': "k' < ?m" "k' \<noteq> k"
          then have "axis k' \<noteq> axis k" using U k by blast
          moreover have "0 \<le> axis k'" "0 \<le> axis k" using A k k' by auto
          ultimately show "nat (Slice_axis ?n axes k') \<noteq> nat (Slice_axis ?n axes k)"
            unfolding axis_eq by auto
        qed
        have val: "?out ! ?j =
            (if has_dim_value (ds ! ?j)
             then DimValue (Slice_length (dim_value (ds ! ?j)) (starts ! k) (ends ! k) (steps ! k))
             else ds ! ?j)"
          using Slice_dims_sliced[OF k inj, of starts ends steps] j unfolding axis_eq by simp
        show "?out ! ?j =
          (case ds ! ?j of
             DimValue L \<Rightarrow>
               (let step = steps ! k;
                    s1 = (if starts ! k < 0 then starts ! k + L else starts ! k);
                    s = (if step < 0 then clamp s1 0 (L - 1) else clamp s1 0 L);
                    e1 = (if ends ! k < 0 then ends ! k + L else ends ! k);
                    e = (if step < 0 then clamp e1 (- 1) L else clamp e1 0 L)
                in DimValue (max 0 \<lceil>real_of_int (e - s) / real_of_int step\<rceil>))
           | d \<Rightarrow> d)"
        proof (cases "ds ! ?j")
          case (DimValue L)
          then have L: "0 \<le> L" "L \<le> 2 ^ 53"
            using dims(1)[rule_format, OF j] by simp_all
          have step: "steps ! k \<noteq> 0"
            using good ok k DimValue by simp
          have "Slice_length L (starts ! k) (ends ! k) (steps ! k) =
              (let s1 = (if starts ! k < 0 then starts ! k + L else starts ! k);
                   s = (if steps ! k < 0 then clamp s1 0 (L - 1) else clamp s1 0 L);
                   e1 = (if ends ! k < 0 then ends ! k + L else ends ! k);
                   e = (if steps ! k < 0 then clamp e1 (- 1) L else clamp e1 0 L)
               in max 0 \<lceil>real_of_int (e - s) / real_of_int (steps ! k)\<rceil>)"
            using range k step by (intro Slice_length_exact L) auto
          then show ?thesis
            unfolding val using DimValue by (simp add: Let_def)
        next
          case (DimParam p)
          then show ?thesis unfolding val by simp
        next
          case DimUnset
          then show ?thesis unfolding val by simp
        qed
      qed
      show ?thesis
      proof (intro conjI impI)
        show "\<exists>out.
            result_shape 0 (Slice_infer ctx) = Inr (if ds = [] then None else Some out)
            \<and> length out = length ds
            \<and> (\<forall>j<length ds. (\<forall>k<length starts. axis k \<noteq> int j) \<longrightarrow> out ! j = ds ! j)
            \<and> (\<forall>k<length starts.
                  out ! nat (axis k) =
                    (case ds ! nat (axis k) of
                       DimValue L \<Rightarrow>
                         (let step = steps ! k;
                              s1 = (if starts ! k < 0 then starts ! k + L else starts ! k);
                              s = (if step < 0 then clamp s1 0 (L - 1) else clamp s1 0 L);
                              e1 = (if ends ! k < 0 then ends ! k + L else ends ! k);
                              e = (if step < 0 then clamp e1 (- 1) L else clamp e1 0 L)
                          in DimValue (max 0 \<lceil>real_of_int (e - s) / real_of_int step\<rceil>))
                     | d \<Rightarrow> d))"
        proof (intro exI[of _ ?out] conjI)
          show "result_shape 0 (Slice_infer ctx) = Inr (if ds = [] then None else Some ?out)"
            using res False by simp
          show "length ?out = ?n" by (rule Slice_dims_length)
          show "\<forall>j<length ds. (\<forall>k<length starts. axis k \<noteq> int j) \<longrightarrow> ?out ! j = ds ! j"
            by (rule untouched)
        qed (rule sliced)
      next
        assume "\<not> ok"
        then show "isl (Slice_infer ctx)" using good by contradiction
      qed
    qed
  qed
qed

text \<open>
  The lemma at the example of C5: data shape \<open>(4, 4)\<close>, starts \<open>[1, 0]\<close>, ends
  \<open>[2, 3]\<close>, axes \<open>[0, 1]\<close>, steps \<open>[1, 2]\<close>.
\<close>

lemma Slice_output_shape_at_example:
  "\<exists>out. result_shape 0 (Slice_infer Slice_example_ctx) = Inr (Some out)
     \<and> length out = 2 \<and> out ! 0 = DimValue 1 \<and> out ! 1 = DimValue 2"
proof -
  define axis :: "nat \<Rightarrow> int"
    where "axis = (\<lambda>k. if [0, 1::int] ! k < 0 then [0, 1] ! k + 2 else [0, 1] ! k)"
  have inst: "(True \<longrightarrow> (\<exists>out.
            result_shape 0 (Slice_infer Slice_example_ctx) =
              Inr (if [DimValue 4, DimValue 4] = [] then None else Some out)
            \<and> length out = length [DimValue 4, DimValue 4]
            \<and> (\<forall>j<length [DimValue 4, DimValue 4].
                  (\<forall>k<length [1, 0::int]. axis k \<noteq> int j) \<longrightarrow> out ! j = [DimValue 4, DimValue 4] ! j)
            \<and> (\<forall>k<length [1, 0::int].
                  out ! nat (axis k) =
                    (case [DimValue 4, DimValue 4] ! nat (axis k) of
                       DimValue L \<Rightarrow>
                         (let step = [1, 2::int] ! k;
                              s1 = (if [1, 0::int] ! k < 0 then [1, 0] ! k + L else [1, 0] ! k);
                              s = (if step < 0 then clamp s1 0 (L - 1) else clamp s1 0 L);
                              e1 = (if [2, 3::int] ! k < 0 then [2, 3] ! k + L else [2, 3] ! k);
                              e = (if step < 0 then clamp e1 (- 1) L else clamp e1 0 L)
                          in DimValue (max 0 \<lceil>real_of_int (e - s) / real_of_int step\<rceil>))
                     | d \<Rightarrow> d))))
       \<and> (\<not> True \<longrightarrow> isl (Slice_infer Slice_example_ctx))"
    by (rule Slice_output_shape[where tS = "int64_tensor [1, 0]" and tE = "int64_tensor [2, 3]"
          and axes = "[0, 1]"])
      (simp_all add: Slice_example_ctx_def getNumInputs_def getInputType_def getOutputType_def
        getInputData_def hasInputShape_def fresh_slot_def int64_tensor_def
        get_initializer_data_def ParseData_int64_def in_int64_def axis_def
        less_Suc_eq numeral_2_eq_2)
  then obtain out where out:
    "result_shape 0 (Slice_infer Slice_example_ctx) = Inr (Some out)" "length out = 2"
    and sl: "\<forall>k<2. out ! nat (axis k) =
                    (case [DimValue 4, DimValue 4] ! nat (axis k) of
                       DimValue L \<Rightarrow>
                         (let step = [1, 2::int] ! k;
                              s1 = (if [1, 0::int] ! k < 0 then [1, 0] ! k + L else [1, 0] ! k);
                              s = (if step < 0 then clamp s1 0 (L - 1) else clamp s1 0 L);
                              e1 = (if [2, 3::int] ! k < 0 then [2, 3] ! k + L else [2, 3] ! k);
                              e = (if step < 0 then clamp e1 (- 1) L else clamp e1 0 L)
                          in DimValue (max 0 \<lceil>real_of_int (e - s) / real_of_int step\<rceil>))
                     | d \<Rightarrow> d)"
    by auto
  have "out ! 0 = DimValue 1"
    using sl[rule_format, of 0] by (simp add: axis_def clamp_def)
  moreover have "out ! 1 = DimValue 2"
    using sl[rule_format, of 1] by (simp add: axis_def clamp_def)
  ultimately show ?thesis using out by blast
qed

section \<open>Properties of Concat\<close>

text \<open>
  C6, the code at the failing input: two inputs of shapes \<open>(4294967296, 2)\<close> and
  \<open>(5, 2)\<close> concatenated along axis 0. The lengths along the axis are known and their
  sum is 4294967301; the code narrows each length to an \<^verbatim>\<open>int\<close> before adding it
  to the \<^verbatim>\<open>int\<close> accumulator and infers the length 5.
\<close>

theorem Concat_wide_axis_length:
  "result_shape 0 (Concat_infer Concat_wide_ctx) = Inr (Some [DimValue 5, DimValue 2])"
  by (simp add: Concat_infer_def Concat_wide_ctx_def Let_def ctx_simps upt_rec int32_def)

section \<open>Properties of Gather\<close>

lemma Gather_loop_foldl:
  "Gather_loop dd di axis q ixs ctx =
     foldl (\<lambda>c i. updOutput 0 (add_dim (Gather_dim dd di axis q i)) c) ctx ixs"
  by (induction ixs arbitrary: ctx) simp_all

lemma Gather_dims_eq:
  assumes "ax < length dd"
  shows "map (Gather_dim dd di (int ax) (int (length di))) [0..<nat (int (length di) + int (length dd) - 1)] =
     take ax dd @ di @ drop (Suc ax) dd"
proof (rule nth_equalityI)
  show "length (map (Gather_dim dd di (int ax) (int (length di)))
          [0..<nat (int (length di) + int (length dd) - 1)]) =
        length (take ax dd @ di @ drop (Suc ax) dd)"
    using assms by simp
next
  fix i
  assume "i < length (map (Gather_dim dd di (int ax) (int (length di)))
          [0..<nat (int (length di) + int (length dd) - 1)])"
  then have i: "i < length di + length dd - 1" by simp
  show "map (Gather_dim dd di (int ax) (int (length di)))
          [0..<nat (int (length di) + int (length dd) - 1)] ! i =
        (take ax dd @ di @ drop (Suc ax) dd) ! i"
  proof -
    have lhs: "map (Gather_dim dd di (int ax) (int (length di)))
          [0..<nat (int (length di) + int (length dd) - 1)] ! i =
          Gather_dim dd di (int ax) (int (length di)) i"
      using i by simp
    consider "i < ax" | "ax \<le> i" "i < ax + length di" | "ax + length di \<le> i"
      by linarith
    then show ?thesis
    proof cases
      case 1
      then show ?thesis
        using assms by (simp add: lhs Gather_dim_def nth_append)
    next
      case 2
      then have "i - ax < length di" by linarith
      with 2 show ?thesis
        using assms by (simp add: lhs Gather_dim_def nth_append nat_diff_distrib')
    next
      case 3
      have a1: "\<not> int i < int ax" and a2: "\<not> int i < int ax + int (length di)"
        using 3 by auto
      have idx: "nat (int i - int (length di) + 1) = Suc ax + (i - ax - length di)"
        using 3 by linarith
      have n1: "\<not> i < ax" and n2: "\<not> i - ax < length di"
        using 3 by auto
      have l: "Gather_dim dd di (int ax) (int (length di)) i = dd ! (Suc ax + (i - ax - length di))"
        by (simp only: Gather_dim_def a1 a2 idx if_False simp_thms)
      have tk: "min (length dd) ax = ax" using assms by simp
      have "(take ax dd @ di @ drop (Suc ax) dd) ! i = (di @ drop (Suc ax) dd) ! (i - ax)"
        using n1 by (simp add: nth_append tk del: append_assoc)
      also have "\<dots> = drop (Suc ax) dd ! (i - ax - length di)"
        using n2 by (simp add: nth_append)
      also have "\<dots> = dd ! (Suc ax + (i - ax - length di))"
        using assms 3 i by (intro nth_drop) simp
      finally show ?thesis by (simp only: lhs l)
    qed
  qed
qed

text \<open>
  C7: for Gather with a data shape of rank \<open>r \<ge> 1\<close>, an indices shape of rank \<open>q\<close>
  and an axis attribute \<open>a\<close> in \<open>[-r, r-1]\<close> (absent: 0), the output shape is the data
  dimensions before the axis, then all the indices dimensions, then the data dimensions
  after the axis, where the axis is \<open>a + r\<close> for a negative \<open>a\<close>; its rank is
  \<open>q + r - 1\<close>.
\<close>

theorem Gather_output_shape:
  assumes arity: "length (inputTypes ctx) = 2" "outputTypes ctx \<noteq> []"
    and dd: "shape (getInputType ctx 0) = Some dd"
    and di: "shape (getInputType ctx 1) = Some di"
    and r: "1 \<le> length dd" "int (length dd) < 2 ^ 31"
    and a: "getAttributeOr ctx ''axis'' 0 = a" "- int (length dd) \<le> a" "a < int (length dd)"
    and fresh: "shape (getOutputType ctx 0) = None"
    and ax: "ax = nat (if a < 0 then a + int (length dd) else a)"
  shows "result_shape 0 (Gather_infer ctx) = Inr (Some (take ax dd @ di @ drop (Suc ax) dd))
     \<and> length (take ax dd @ di @ drop (Suc ax) dd) = length di + length dd - 1"
proof -
  let ?ctx = "propagateElemTypeFromInputToOutput ctx 0 0"
  have has: "hasNInputShapes ?ctx 2"
    using arity dd di
    by (simp add: hasNInputShapes_def hasInputShape_def getNumInputs_def getInputType_def
        propagateElemType_fields upt_rec)
  have sd: "shape_dims (getInputType ?ctx 0) = dd" "shape_dims (getInputType ?ctx (Suc 0)) = di"
    using dd di by (simp_all add: shape_dims_def getInputType_def propagateElemType_fields)
  have at: "getAttributeOr ?ctx ''axis'' 0 = a"
    using a(1) by (simp add: getAttributeOr_def getAttribute_def propagateElemType_fields)
  have a32: "int32 a = a"
    using a r by (intro int32_id) (simp add: in_int32_def)
  have axlt: "ax < length dd" and axint: "int ax = (if a < 0 then a + int (length dd) else a)"
    using a ax by auto
  have len: "length (take ax dd @ di @ drop (Suc ax) dd) = length di + length dd - 1"
    using axlt by simp
  let ?n = "nat (int (length di) + int (length dd) - 1)"
  let ?ctx1 = "if int (length di) + int (length dd) - 1 = 0 then updOutput 0 mutable_shape ?ctx else ?ctx"
  have ne: "dd \<noteq> []" "\<not> int (length dd) < 1" "\<not> a < - int (length dd)" "\<not> int (length dd) \<le> a"
    using r a by auto
  have run: "Gather_infer ctx =
      Inr (Gather_loop dd di (int ax) (int (length di)) [0..<?n] ?ctx1)"
    using has ne by (simp add: Gather_infer_def Let_def sd at a32 axint)
  have "shape (getOutputType (Gather_loop dd di (int ax) (int (length di)) [0..<?n] ?ctx1) 0) =
      Some (map (Gather_dim dd di (int ax) (int (length di))) [0..<?n])"
    unfolding Gather_loop_foldl add_dims_foldl
    using arity fresh r(1)
    by (cases "outputTypes ctx") (auto simp add: ctx_simps)
  then show ?thesis
    using len by (simp add: run result_shape_def Gather_dims_eq[OF axlt])
qed

text \<open>The theorem at data shape \<open>(3, C, 5)\<close>, indices shape \<open>(2, 7)\<close>, axis \<open>-2\<close>.\<close>

theorem Gather_output_shape_witness:
  "result_shape 0 (Gather_infer Gather_example_ctx) =
     Inr (Some [DimValue 3, DimValue 2, DimValue 7, DimValue 5])"
  using Gather_output_shape[of Gather_example_ctx "[DimValue 3, DimParam ''C'', DimValue 5]"
      "[DimValue 2, DimValue 7]" "- 2" 1]
  by (simp add: Gather_example_ctx_def getInputType_def getOutputType_def getAttributeOr_def
      getAttribute_def fresh_slot_def)

section \<open>Properties of Squeeze\<close>

text \<open>
  C8, the code at the failing input: input shape \<open>(3, 1)\<close> and \<open>axes = [1, 0]\<close>. Axis 0
  is listed and has the known length 3, yet the call succeeds and passes it through: the
  loop compares axis \<open>i\<close> with \<open>axes[j]\<close> only, so it takes the axes in ascending
  order for granted (Unsqueeze sorts its axes first; Squeeze does not).
\<close>

theorem Squeeze_unsorted_axes_no_failure:
  "result_shape 0 (Squeeze_infer Squeeze_unsorted_ctx) = Inr (Some [DimValue 3])"
  by (simp add: Squeeze_infer_def Squeeze_unsorted_ctx_def Let_def ctx_simps upt_rec)

text \<open>
  C10: for Squeeze without an \<open>axes\<close> attribute the call succeeds and changes nothing
  but the element type of output 0, which becomes that of input 0: the shape of the output
  slot is left as it was, whatever the input shape is.
\<close>

theorem Squeeze_without_axes:
  assumes "getAttribute ctx ''axes'' = None"
  shows "Squeeze_infer ctx =
     Inr (ctx\<lparr>outputTypes := (outputTypes ctx)
            [0 := (outputTypes ctx ! 0)\<lparr>elem_type := elem_type (getInputType ctx 0)\<rparr>]\<rparr>)"
  using assms
  by (simp add: Squeeze_infer_def Let_def getRepeatedAttribute_def getAttribute_def
      propagateElemTypeFromInputToOutput_def updOutput_def)

text \<open>The theorem at input shape \<open>(1, 3, 1)\<close> without axes: no output shape.\<close>

theorem Squeeze_without_axes_witness:
  "result_shape 0 (Squeeze_infer Squeeze_no_axes_ctx) = Inr None"
  using Squeeze_without_axes[of Squeeze_no_axes_ctx]
  by (simp add: Squeeze_no_axes_ctx_def getAttribute_def result_shape_def getOutputType_def
      fresh_slot_def)

section \<open>Properties of Tile\<close>

lemma Tile_loop_foldl:
  "Tile_loop ds rs ixs ctx =
     foldl (\<lambda>c i. updOutput 0 (add_dim (Tile_dim ds rs i)) c) ctx ixs"
  by (induction ixs arbitrary: ctx) simp_all

lemma Tile_rank_loop_foldl:
  "Tile_rank_loop ixs ctx =
     foldl (\<lambda>c i. updOutput 0 (add_dim DimUnset) c) ctx ixs"
  by (induction ixs arbitrary: ctx) simp_all

text \<open>
  C9, the code at the failing input: Tile on an input of shape \<open>(2, 3)\<close> whose
  \<open>repeats\<close> input is the constant \<open>[1, 2]\<close> of a slot with no shape recorded. The
  function reads the rank of that unknown shape as 0 and fails.
\<close>

theorem Tile_unknown_repeats_shape_fails:
  "Tile_infer Tile_unknown_repeats_shape_ctx =
     Inl (ShapeInferenceError ''Repeats input must be 1D tensor of type int64'')"
  by (simp add: Tile_infer_def Tile_unknown_repeats_shape_ctx_def Let_def ctx_simps)

end
